theory Spec2Isabelle
  imports Complex_Main "HOL-Library.Word" "HOL-Library.Signed_Division"
begin

section \<open>Data model\<close>

text \<open>
  The program's scalar types.
  \<^item> \<open>int\<close> (the car id and the \<open>nextCarID\<close> counter) is a 32-bit two's complement
    integer: a \<open>32 word\<close>, read through \<open>sint\<close>; \<open>nextCarID++\<close> is \<open>+ 1\<close> on the
    word, so it wraps from \<open>2^31 - 1\<close> to \<open>- 2^31\<close>.
  \<^item> \<open>double\<close> is IEEE 754 binary64, the type \<open>double\<close> below: every operation
    rounds its exact result to the nearest representable value (ties to even),
    overflows to an infinity, and propagates NaN. A record stores the value of a
    finite double as a \<open>real\<close> (the hourly rate); an infinite or NaN rate cannot be
    stored.
  \<^item> \<open>std::chrono::system_clock::time_point\<close> is the number of clock ticks since the
    epoch, an \<open>int\<close>; the clock's period is one nanosecond and its counter has 64
    bits (as in libstdc++). The subtraction of two time points wraps around at 64
    bits: \<open>int64_sub\<close>.
  \<^item> \<open>std::string\<close> is \<open>string\<close>, compared by \<open>=\<close> as \<open>operator==\<close> does: byte by
    byte.
  The function \<open>calculateFee\<close> is given twice: \<open>calculateFee_double\<close> on these machine
  numbers, and \<open>calculateFee\<close> in exact arithmetic on the plain difference of the
  time points, which states the boundary values that the machine result meets up
  to rounding.
\<close>

type_synonym cint = "32 word"
type_synonym std_string = string
type_synonym time_point = int
type_synonym duration = int

subsection \<open>binary64\<close>

text \<open>
  A double is a finite value, an infinity or NaN. The two zeros are identified: the
  program divides by the constant 60.0 only, and its comparisons do not tell the
  zeros apart. \<open>Finite x\<close> is a double when \<open>x\<close> lies on the binary64 grid; every
  operation below returns such values.
\<close>

datatype double = Finite real | PosInf | NegInf | NaN

text \<open>
  The exponent of the binade of a magnitude \<open>a\<close>: the largest \<open>e\<close> between \<open>- 1022\<close>
  and \<open>- 1022 + n\<close> with \<open>2^e \<le> a\<close>, and \<open>- 1022\<close> (the subnormal range) if there is
  none.
\<close>

primrec expo :: "nat \<Rightarrow> real \<Rightarrow> int" where
  "expo 0 a = - 1022"
| "expo (Suc n) a = (if 2 powi (int n - 1021) \<le> a then int n - 1021 else expo n a)"

definition binade :: "real \<Rightarrow> int" where
  "binade x = expo 2046 \<bar>x\<bar>"

text \<open>The spacing of the doubles around \<open>x\<close>: 52 fraction bits below the binade.\<close>

definition ulp :: "real \<Rightarrow> real" where
  "ulp x = 2 powi (binade x - 52)"

text \<open>Rounding to the nearest integer, a tie going to the even one.\<close>

definition round_even :: "real \<Rightarrow> int" where
  "round_even q =
     (let f = \<lfloor>q\<rfloor>; d = q - real_of_int f
      in if d < 1 / 2 then f
         else if 1 / 2 < d then f + 1
         else if even f then f else f + 1)"

definition nearest :: "real \<Rightarrow> real" where
  "nearest x = real_of_int (round_even (x / ulp x)) * ulp x"

text \<open>
  The double that an exact result \<open>x\<close> is rounded to; a rounded magnitude of
  \<open>2^1024\<close> or more is an overflow. It is also the double that a decimal literal of
  value \<open>x\<close> denotes.
\<close>

definition rnd :: "real \<Rightarrow> double" where
  "rnd x =
     (let y = nearest x
      in if 2 ^ 1024 \<le> y then PosInf
         else if y \<le> - (2 ^ 1024) then NegInf
         else Finite y)"

fun dneg :: "double \<Rightarrow> double" where
  "dneg (Finite x) = Finite (- x)"
| "dneg PosInf = NegInf"
| "dneg NegInf = PosInf"
| "dneg NaN = NaN"

fun dadd :: "double \<Rightarrow> double \<Rightarrow> double" where
  "dadd (Finite x) (Finite y) = rnd (x + y)"
| "dadd NaN b = NaN"
| "dadd a NaN = NaN"
| "dadd PosInf NegInf = NaN"
| "dadd NegInf PosInf = NaN"
| "dadd PosInf b = PosInf"
| "dadd a PosInf = PosInf"
| "dadd NegInf b = NegInf"
| "dadd a NegInf = NegInf"

definition dsub :: "double \<Rightarrow> double \<Rightarrow> double" where
  "dsub a b = dadd a (dneg b)"

fun dmul :: "double \<Rightarrow> double \<Rightarrow> double" where
  "dmul (Finite x) (Finite y) = rnd (x * y)"
| "dmul NaN b = NaN"
| "dmul a NaN = NaN"
| "dmul (Finite x) PosInf = (if x = 0 then NaN else if 0 < x then PosInf else NegInf)"
| "dmul (Finite x) NegInf = (if x = 0 then NaN else if 0 < x then NegInf else PosInf)"
| "dmul PosInf (Finite y) = (if y = 0 then NaN else if 0 < y then PosInf else NegInf)"
| "dmul NegInf (Finite y) = (if y = 0 then NaN else if 0 < y then NegInf else PosInf)"
| "dmul PosInf PosInf = PosInf"
| "dmul PosInf NegInf = NegInf"
| "dmul NegInf PosInf = NegInf"
| "dmul NegInf NegInf = PosInf"

text \<open>Division; a zero divisor is taken as the positive zero.\<close>

fun ddiv :: "double \<Rightarrow> double \<Rightarrow> double" where
  "ddiv (Finite x) (Finite y) =
     (if y = 0 then (if x = 0 then NaN else if 0 < x then PosInf else NegInf)
      else rnd (x / y))"
| "ddiv NaN b = NaN"
| "ddiv a NaN = NaN"
| "ddiv (Finite x) b = Finite 0"
| "ddiv PosInf (Finite y) = (if 0 \<le> y then PosInf else NegInf)"
| "ddiv NegInf (Finite y) = (if 0 \<le> y then NegInf else PosInf)"
| "ddiv a b = NaN"

text \<open>\<open>a < b\<close> and \<open>a <= b\<close> on doubles: false as soon as one side is NaN.\<close>

fun dless :: "double \<Rightarrow> double \<Rightarrow> bool" where
  "dless (Finite x) (Finite y) = (x < y)"
| "dless NaN b = False"
| "dless a NaN = False"
| "dless a NegInf = False"
| "dless PosInf b = False"
| "dless a b = True"

fun dle :: "double \<Rightarrow> double \<Rightarrow> bool" where
  "dle (Finite x) (Finite y) = (x \<le> y)"
| "dle NaN b = False"
| "dle a NaN = False"
| "dle NegInf b = True"
| "dle a PosInf = True"
| "dle a b = False"

text \<open>\<open>std::max(a, b)\<close>, which is \<open>(a < b) ? b : a\<close>.\<close>

definition dmax :: "double \<Rightarrow> double \<Rightarrow> double" where
  "dmax a b = (if dless a b then b else a)"

fun is_finite :: "double \<Rightarrow> bool" where
  "is_finite (Finite x) = True"
| "is_finite a = False"

text \<open>The conversion of a 64-bit integer to double.\<close>

definition d_of_int :: "int \<Rightarrow> double" where
  "d_of_int m = rnd (real_of_int m)"

text \<open>
  The conversion of a double to a 64-bit integer cuts the fraction off. Out of
  range, and for NaN, C++ leaves the result undefined; x86-64 gives \<open>- 2^63\<close>.
\<close>

fun to_int64 :: "double \<Rightarrow> int" where
  "to_int64 (Finite x) =
     (let t = (if x < 0 then \<lceil>x\<rceil> else \<lfloor>x\<rfloor>)
      in if - (2 ^ 63) \<le> t \<and> t < 2 ^ 63 then t else - (2 ^ 63))"
| "to_int64 a = - (2 ^ 63)"

text \<open>The literals \<open>0.30\<close>, \<open>0.18\<close> of the code, and \<open>0.70\<close>, \<open>1.18\<close> of the specification.\<close>

definition lit_0_30 :: double where "lit_0_30 = rnd (30 / 100)"
definition lit_0_18 :: double where "lit_0_18 = rnd (18 / 100)"

subsection \<open>The clock\<close>

definition ticks_per_second :: int where
  "ticks_per_second = 1000000000"

definition ticks_per_minute :: int where
  "ticks_per_minute = 60 * ticks_per_second"

text \<open>The difference of two 64-bit tick counts, wrapping around.\<close>

definition int64_sub :: "int \<Rightarrow> int \<Rightarrow> int" where
  "int64_sub a b = signed_take_bit 63 (a - b)"

text \<open>
  \<open>duration_cast<std::chrono::minutes>(d).count()\<close>: an integer division of the tick
  count that truncates towards zero, as C++ integer division does.
\<close>

definition minutes_count :: "duration \<Rightarrow> int" where
  "minutes_count d = d sdiv ticks_per_minute"

text \<open>
  \<open>duration_cast<system_clock::duration>(std::chrono::duration<double>(secs))\<close>: the
  seconds are multiplied by \<open>1e9\<close> in double arithmetic and the product is converted
  to the 64-bit tick count.
\<close>

definition ticks_of_seconds :: "double \<Rightarrow> duration" where
  "ticks_of_seconds secs = to_int64 (dmul secs (Finite (real_of_int ticks_per_second)))"

subsection \<open>car.h, car.cpp\<close>

record Car =
  id' :: cint
  ownerName :: std_string
  licensePlate :: std_string
  model :: std_string
  color :: std_string
  fuelType :: std_string
  phone :: std_string
  email :: std_string
  membership :: std_string
  paymentMethod :: std_string
  slot :: std_string
  slotSize :: std_string
  exitGate :: std_string
  reservedSlot :: bool
  hourlyRate :: real
  dynamicPricing :: bool
  parkingTime :: time_point

text \<open>
  \<open>Car::Car()\<close>. The first argument is the reading of \<open>system_clock::now()\<close> that the
  constructor takes; the strings are default-initialised (empty).
\<close>

definition Car_default :: "time_point \<Rightarrow> Car" where
  "Car_default now =
     \<lparr> id' = 0, ownerName = [], licensePlate = [], model = [], color = [],
       fuelType = [], phone = [], email = [], membership = [], paymentMethod = [],
       slot = [], slotSize = [], exitGate = [], reservedSlot = False,
       hourlyRate = 50, dynamicPricing = False, parkingTime = now \<rparr>"

text \<open>\<open>Car::Car(int id, const std::string& ownerName, ..., bool dynamicPricing)\<close>.\<close>

definition Car_ctor ::
  "time_point \<Rightarrow> cint \<Rightarrow> std_string \<Rightarrow> std_string \<Rightarrow> std_string \<Rightarrow> std_string \<Rightarrow> std_string \<Rightarrow> std_string \<Rightarrow> std_string
     \<Rightarrow> std_string \<Rightarrow> std_string \<Rightarrow> std_string \<Rightarrow> std_string \<Rightarrow> bool \<Rightarrow> std_string \<Rightarrow> real \<Rightarrow> bool \<Rightarrow> Car" where
  "Car_ctor now i ownerName0 licensePlate0 model0 color0 fuelType0 phone0 email0
       membership0 paymentMethod0 slot0 slotSize0 reservedSlot0 exitGate0 hourlyRate0
       dynamicPricing0 =
     \<lparr> id' = i, ownerName = ownerName0, licensePlate = licensePlate0, model = model0,
       color = color0, fuelType = fuelType0, phone = phone0, email = email0,
       membership = membership0, paymentMethod = paymentMethod0, slot = slot0,
       slotSize = slotSize0, exitGate = exitGate0, reservedSlot = reservedSlot0,
       hourlyRate = hourlyRate0, dynamicPricing = dynamicPricing0, parkingTime = now \<rparr>"

subsection \<open>parking\_lot.h\<close>

record ParkingLot =
  cars :: "Car list"
  nextCarID :: cint
  silentMode :: bool

definition MAX_CAPACITY :: nat where
  "MAX_CAPACITY = 100"

text \<open>\<open>ParkingLot::ParkingLot() : nextCarID(1001) {}\<close>, with \<open>silentMode = false\<close>.\<close>

definition ParkingLot_init :: ParkingLot where
  "ParkingLot_init = \<lparr> cars = [], nextCarID = 1001, silentMode = False \<rparr>"

definition setSilentMode :: "bool \<Rightarrow> ParkingLot \<Rightarrow> ParkingLot" where
  "setSilentMode mode s = s\<lparr> silentMode := mode \<rparr>"

definition getCarCount :: "ParkingLot \<Rightarrow> nat" where
  "getCarCount s = length (cars s)"

section \<open>Operations of parking\_lot.cpp\<close>

text \<open>
  \<open>std::find_if\<close> over a vector, as the index of the first element that satisfies the
  predicate; the length of the list stands for the \<open>end()\<close> iterator.
\<close>

fun find_if :: "('a \<Rightarrow> bool) \<Rightarrow> 'a list \<Rightarrow> nat" where
  "find_if P [] = 0"
| "find_if P (x # xs) = (if P x then 0 else Suc (find_if P xs))"

text \<open>\<open>std::vector::erase(it)\<close> for a valid iterator at index \<open>i\<close>.\<close>

definition erase :: "nat \<Rightarrow> 'a list \<Rightarrow> 'a list" where
  "erase i xs = take i xs @ drop (Suc i) xs"

subsection \<open>parkCar\<close>

text \<open>
  Lines 104 to 182 of \<open>ParkingLot::parkCar\<close> prompt on the terminal and fill the local
  variables; they touch neither \<open>cars\<close> nor \<open>nextCarID\<close>. The record below holds the
  values of these locals when line 184 is reached, together with the two readings
  of the clock that lines 184 to 192 take: one inside the \<open>Car\<close> constructor, one in
  the backdating branch.
\<close>

record park_input =
  in_ownerName :: std_string
  in_licensePlate :: std_string
  in_model :: std_string
  in_color :: std_string
  in_fuelType :: std_string
  in_phone :: std_string
  in_email :: std_string
  in_membership :: std_string
  in_paymentMethod :: std_string
  in_slot :: std_string
  in_slotSize :: std_string
  in_reservedSlot :: bool
  in_exitGate :: std_string
  in_hourlyRate :: real
  in_dynamicPricing :: bool
  in_parkingHours :: real
  clock_ctor :: time_point
  clock_backdate :: time_point

text \<open>
  Lines 184 to 200. The post-increment of \<open>nextCarID\<close> is part of the constructor
  call on line 184, before the capacity test of line 194. The CSV row and the
  console message of a successful admission are output only.
\<close>

definition parkCar :: "park_input \<Rightarrow> ParkingLot \<Rightarrow> ParkingLot" where
  "parkCar inp s =
     (let car = Car_ctor (clock_ctor inp) (nextCarID s) (in_ownerName inp)
                  (in_licensePlate inp) (in_model inp) (in_color inp) (in_fuelType inp)
                  (in_phone inp) (in_email inp) (in_membership inp)
                  (in_paymentMethod inp) (in_slot inp) (in_slotSize inp)
                  (in_reservedSlot inp) (in_exitGate inp) (in_hourlyRate inp)
                  (in_dynamicPricing inp);
          s1 = s\<lparr> nextCarID := nextCarID s + 1 \<rparr>;
          car1 = (if dless (Finite 0) (Finite (in_parkingHours inp))
                  then car\<lparr> parkingTime :=
                         int64_sub (clock_backdate inp)
                           (ticks_of_seconds (dmul (Finite (in_parkingHours inp)) (Finite 3600))) \<rparr>
                  else car)
      in if length (cars s1) < MAX_CAPACITY
         then s1\<lparr> cars := cars s1 @ [car1] \<rparr>
         else s1)"

subsection \<open>testAddCar\<close>

definition testAddCar :: "Car \<Rightarrow> ParkingLot \<Rightarrow> ParkingLot" where
  "testAddCar car s =
     (if length (cars s) < MAX_CAPACITY
      then s\<lparr> cars := cars s @ [car] \<rparr>
      else s)"

subsection \<open>calculateFee\<close>

text \<open>
  Lines 268 to 269 and line 339, the same expression in \<open>removeCarByIdAndOwner\<close> and
  in \<open>calculateFee\<close>: the whole minutes of the 64-bit difference, converted to double,
  divided by \<open>60.0\<close>, and \<open>std::max\<close> with \<open>0.0\<close>.
\<close>

definition elapsed_hours :: "time_point \<Rightarrow> time_point \<Rightarrow> double" where
  "elapsed_hours admission now =
     dmax (Finite 0) (ddiv (d_of_int (minutes_count (int64_sub now admission))) (Finite 60))"

text \<open>
  \<open>ParkingLot::calculateFee\<close> reads no member of the lot. Its first argument here is
  the reading of \<open>system_clock::now()\<close> on line 337.
\<close>

definition calculateFee_double :: "time_point \<Rightarrow> Car \<Rightarrow> double" where
  "calculateFee_double now car =
     (let hours = elapsed_hours (parkingTime car) now;
          subtotal = dmul hours (Finite (hourlyRate car))
      in if dynamicPricing car
         then (let discount = (if dless (Finite 5) hours then dmul subtotal lit_0_30 else Finite 0);
                   subtotal1 = (if dless (Finite 5) hours then dsub subtotal discount else subtotal);
                   gst = dmul subtotal1 lit_0_18
               in dadd subtotal1 gst)
         else dadd subtotal (Finite 0))"


subsection \<open>removeCarByIdAndOwner\<close>

text \<open>
  The values that lines 283 to 294 write into the bill text. \<open>b_gross\<close> is the
  expression \<open>hours * it->hourlyRate\<close> of line 290 (the gross before any discount);
  the discount line is written only if \<open>discount > 0\<close>.
\<close>

record Bill =
  b_id :: cint
  b_ownerName :: std_string
  b_licensePlate :: std_string
  b_hours :: double
  b_rate :: double
  b_gross :: double
  b_discount :: double
  b_discount_shown :: bool
  b_gst :: double
  b_total :: double

text \<open>Lines 267 to 294: the bill of the record \<open>it\<close> points to, at the clock reading \<open>now\<close>.\<close>

definition make_bill :: "time_point \<Rightarrow> Car \<Rightarrow> Bill" where
  "make_bill now it =
     (let hours = elapsed_hours (parkingTime it) now;
          gross = dmul hours (Finite (hourlyRate it));
          discount = (if dynamicPricing it \<and> dless (Finite 5) hours
                      then dmul gross lit_0_30 else Finite 0);
          gross1 = (if dynamicPricing it \<and> dless (Finite 5) hours
                    then dsub gross discount else gross);
          gst = (if dynamicPricing it then dmul gross1 lit_0_18 else Finite 0);
          total = dadd gross1 gst
      in \<lparr> b_id = id' it, b_ownerName = ownerName it, b_licensePlate = licensePlate it,
           b_hours = hours, b_rate = Finite (hourlyRate it),
           b_gross = dmul hours (Finite (hourlyRate it)),
           b_discount = discount, b_discount_shown = dless (Finite 0) discount,
           b_gst = gst, b_total = total \<rparr>)"

text \<open>
  The result is the bill (\<open>None\<close> where the source returns \<open>false\<close>, \<open>Some\<close> where it
  returns \<open>true\<close>) and the lot afterwards. The bill is always built; it is printed
  and appended to the bill file only when the lot is not in silent mode.
\<close>

definition removeCarByIdAndOwner ::
  "time_point \<Rightarrow> cint \<Rightarrow> std_string \<Rightarrow> ParkingLot \<Rightarrow> Bill option \<times> ParkingLot" where
  "removeCarByIdAndOwner now i owner s =
     (let it = find_if (\<lambda>c. id' c = i \<and> ownerName c = owner) (cars s)
      in if it = length (cars s) then (None, s)
         else (Some (make_bill now (cars s ! it)), s\<lparr> cars := erase it (cars s) \<rparr>))"

subsection \<open>getCarByID\<close>

text \<open>
  The first argument is the clock reading that \<open>Car()\<close> takes when no record matches.
\<close>

definition getCarByID :: "time_point \<Rightarrow> cint \<Rightarrow> ParkingLot \<Rightarrow> Car" where
  "getCarByID now i s =
     (let it = find_if (\<lambda>car. id' car = i) (cars s)
      in if it \<noteq> length (cars s) then cars s ! it else Car_default now)"

section \<open>Sequences of operations\<close>

datatype op =
  Park park_input
| TestAdd Car
| Remove time_point cint std_string

fun step :: "op \<Rightarrow> ParkingLot \<Rightarrow> ParkingLot" where
  "step (Park inp) s = parkCar inp s"
| "step (TestAdd car) s = testAddCar car s"
| "step (Remove now i owner) s = snd (removeCarByIdAndOwner now i owner s)"

fun run :: "op list \<Rightarrow> ParkingLot \<Rightarrow> ParkingLot" where
  "run [] s = s"
| "run (x # xs) s = run xs (step x s)"

subsection \<open>What an admission hands out\<close>

text \<open>
  \<open>parkCar\<close> returns nothing. An admission succeeded exactly when the vector grew,
  and the id it received is the id of the record now at the back.
\<close>

definition parked_id :: "park_input \<Rightarrow> ParkingLot \<Rightarrow> cint option" where
  "parked_id inp s =
     (let s1 = parkCar inp s
      in if length (cars s) < length (cars s1) then Some (id' (last (cars s1))) else None)"

text \<open>The ids received by the successful admissions of a sequence, in order.\<close>

fun admitted_ids :: "op list \<Rightarrow> ParkingLot \<Rightarrow> cint list" where
  "admitted_ids [] s = []"
| "admitted_ids (Park inp # xs) s =
     (case parked_id inp s of None \<Rightarrow> [] | Some i \<Rightarrow> [i]) @ admitted_ids xs (parkCar inp s)"
| "admitted_ids (x # xs) s = admitted_ids xs (step x s)"

text \<open>The number of calls of \<open>parkCar\<close> in a sequence.\<close>

fun park_attempts :: "op list \<Rightarrow> nat" where
  "park_attempts [] = 0"
| "park_attempts (Park inp # xs) = Suc (park_attempts xs)"
| "park_attempts (x # xs) = park_attempts xs"

section \<open>The fee formula of the specification\<close>




section \<open>The test suite's fixture\<close>

text \<open>
  \<open>createCar\<close> of \<open>parking_lot_test.cpp\<close>: every attribute but the id, the owner, the
  pricing flag and the rate is a fixed placeholder, and \<open>parkingTime\<close> is assigned
  the current time after construction.
\<close>

definition createCar :: "time_point \<Rightarrow> cint \<Rightarrow> std_string \<Rightarrow> bool \<Rightarrow> real \<Rightarrow> Car" where
  "createCar now i owner dynamicPricing0 hourlyRate0 =
     (Car_ctor now i owner ''MH12AB1234'' ''Model X'' ''Color'' ''Fuel'' ''0000000000''
        ''email@example.com'' ''None'' ''Cash'' ''S1'' ''Medium'' False ''Exit A''
        hourlyRate0 dynamicPricing0) \<lparr> parkingTime := now \<rparr>"

text \<open>
  The answers of one terminal session of \<open>parkCar\<close>: the owner, the hourly rate and
  the pricing choice are given, the other answers are the fixture's placeholders,
  the parking duration is 0 (no backdating) and the clock reads \<open>now\<close>.
\<close>

definition typed_entry :: "time_point \<Rightarrow> std_string \<Rightarrow> real \<Rightarrow> bool \<Rightarrow> park_input" where
  "typed_entry now owner hourlyRate0 dynamicPricing0 =
     \<lparr> in_ownerName = owner, in_licensePlate = ''MH12AB1234'', in_model = ''Model X'',
       in_color = ''Color'', in_fuelType = ''Fuel'', in_phone = ''0000000000'',
       in_email = ''email@example.com'', in_membership = ''None'',
       in_paymentMethod = ''Cash'', in_slot = ''S1'', in_slotSize = ''Medium'',
       in_reservedSlot = False, in_exitGate = ''Exit A'', in_hourlyRate = hourlyRate0,
       in_dynamicPricing = dynamicPricing0, in_parkingHours = 0,
       clock_ctor = now, clock_backdate = now \<rparr>"

section \<open>Rounding to binary64\<close>

lemma expo_ge: "- 1022 \<le> expo n a"
  by (induction n) auto

lemma expo_le: "expo n a \<le> int n - 1022"
  by (induction n) auto

lemma expo_lower: "- 1022 < expo n a \<Longrightarrow> 2 powi (expo n a) \<le> a"
  by (induction n) (auto split: if_splits)

lemma expo_upper: "expo n a < int n - 1022 \<Longrightarrow> a < 2 powi (expo n a + 1)"
proof (induction n)
  case 0
  then show ?case by simp
next
  case (Suc n)
  show ?case
  proof (cases "2 powi (int n - 1021) \<le> a")
    case True
    then show ?thesis using Suc.prems by simp
  next
    case False
    then have e: "expo (Suc n) a = expo n a" by simp
    have le: "expo n a \<le> int n - 1022" by (rule expo_le)
    show ?thesis
    proof (cases "expo n a < int n - 1022")
      case True
      then show ?thesis using Suc.IH e by simp
    next
      case False
      then have "expo n a + 1 = int n - 1021" using le by simp
      then have "expo (Suc n) a + 1 = int n - 1021" by (simp only: e)
      then have "2 powi (expo (Suc n) a + 1) = (2::real) powi (int n - 1021)"
        by (simp only:)
      then show ?thesis using \<open>\<not> 2 powi (int n - 1021) \<le> a\<close> by linarith
    qed
  qed
qed

lemma pow2_pos: "0 < (2::real) powi e"
  by (simp add: zero_less_power_int)

lemma pow2_mono: "e \<le> f \<Longrightarrow> (2::real) powi e \<le> 2 powi f"
  by (rule power_int_increasing) simp_all

lemma pow2_strict_mono: "e < f \<Longrightarrow> (2::real) powi e < 2 powi f"
  by (rule power_int_strict_increasing) simp_all

lemma pow2_add: "(2::real) powi (e + f) = 2 powi e * 2 powi f"
  by (rule power_int_add) simp

lemma pow2_nat: "0 \<le> e \<Longrightarrow> (2::real) powi e = real_of_int (2 ^ nat e)"
  by (simp add: power_int_def)

lemma expo_eqI:
  assumes "- 1022 \<le> e" "e \<le> int n - 1022"
    and lo: "e = - 1022 \<or> 2 powi e \<le> a"
    and hi: "e = int n - 1022 \<or> a < 2 powi (e + 1)"
  shows "expo n a = e"
proof (rule ccontr)
  assume ne: "expo n a \<noteq> e"
  show False
  proof (cases "expo n a < e")
    case True
    then have "expo n a < int n - 1022" using assms(2) by simp
    then have "a < 2 powi (expo n a + 1)" by (rule expo_upper)
    also have "\<dots> \<le> 2 powi e" using True by (intro pow2_mono) simp
    finally have "a < 2 powi e" .
    moreover have "e \<noteq> - 1022" using True expo_ge [of n a] by simp
    ultimately show False using lo by simp
  next
    case False
    then have gt: "e < expo n a" using ne by simp
    then have "- 1022 < expo n a" using assms(1) by simp
    then have "2 powi (expo n a) \<le> a" by (rule expo_lower)
    moreover have "2 powi (e + 1) \<le> (2::real) powi (expo n a)" using gt by (intro pow2_mono) simp
    moreover have "e \<noteq> int n - 1022" using gt expo_le [of n a] by simp
    ultimately show False using hi by simp
  qed
qed

lemma binade_ge: "- 1022 \<le> binade x"
  by (simp add: binade_def expo_ge)

lemma binade_le: "binade x \<le> 1024"
  using expo_le [of 2046 "\<bar>x\<bar>"] by (simp add: binade_def)

lemma binade_lower: "- 1022 < binade x \<Longrightarrow> 2 powi (binade x) \<le> \<bar>x\<bar>"
  unfolding binade_def by (rule expo_lower)

lemma binade_upper: "binade x < 1024 \<Longrightarrow> \<bar>x\<bar> < 2 powi (binade x + 1)"
  unfolding binade_def by (rule expo_upper) simp

lemma binade_eqI:
  assumes "- 1022 \<le> e" "e \<le> 1024" "e = - 1022 \<or> 2 powi e \<le> \<bar>x\<bar>"
    "e = 1024 \<or> \<bar>x\<bar> < 2 powi (e + 1)"
  shows "binade x = e"
  unfolding binade_def by (rule expo_eqI) (use assms in simp_all)

lemma ulp_pos: "0 < ulp x"
  by (simp add: ulp_def pow2_pos)

lemma round_even_err: "\<bar>real_of_int (round_even q) - q\<bar> \<le> 1 / 2"
  unfolding round_even_def Let_def by (auto simp add: abs_if) linarith+

lemma round_even_of_int: "round_even (real_of_int n) = n"
  by (simp add: round_even_def)

lemma round_even_le: "q \<le> real_of_int b \<Longrightarrow> round_even q \<le> b"
proof -
  assume a: "q \<le> real_of_int b"
  then have fl: "\<lfloor>q\<rfloor> \<le> b" by (simp add: floor_le_iff)
  show ?thesis
  proof (cases "\<lfloor>q\<rfloor> = b")
    case True
    then have "real_of_int b \<le> q" using of_int_floor_le [of q] by simp
    then have "q = real_of_int b" using a by simp
    then show ?thesis by (simp add: round_even_of_int)
  next
    case False
    then have "\<lfloor>q\<rfloor> + 1 \<le> b" using fl by simp
    then show ?thesis unfolding round_even_def Let_def by auto
  qed
qed

lemma round_even_ge: "real_of_int b \<le> q \<Longrightarrow> b \<le> round_even q"
proof -
  assume "real_of_int b \<le> q"
  then have "b \<le> \<lfloor>q\<rfloor>" by (simp add: le_floor_iff)
  then show ?thesis unfolding round_even_def Let_def by auto
qed


lemma round_even_nonneg: "0 \<le> q \<Longrightarrow> 0 \<le> round_even q"
  using round_even_ge [of 0 q] by simp

lemma round_even_nonpos: "q \<le> 0 \<Longrightarrow> round_even q \<le> 0"
  using round_even_le [of q 0] by simp

lemma nearest_0: "nearest 0 = 0"
  by (simp add: nearest_def round_even_def)

lemma nearest_nonneg: "0 \<le> x \<Longrightarrow> 0 \<le> nearest x"
proof -
  assume "0 \<le> x"
  then have "0 \<le> x / ulp x" using ulp_pos [of x] by simp
  then have "0 \<le> round_even (x / ulp x)" by (rule round_even_nonneg)
  then show ?thesis using ulp_pos [of x] by (simp add: nearest_def)
qed

lemma nearest_nonpos: "x \<le> 0 \<Longrightarrow> nearest x \<le> 0"
proof -
  assume "x \<le> 0"
  then have "x / ulp x \<le> 0" using ulp_pos [of x] by (simp add: divide_le_0_iff)
  then have "round_even (x / ulp x) \<le> 0" by (rule round_even_nonpos)
  then show ?thesis using ulp_pos [of x] by (simp add: nearest_def mult_le_0_iff)
qed

lemma nearest_err: "\<bar>nearest x - x\<bar> \<le> ulp x / 2"
proof -
  have u: "0 < ulp x" by (rule ulp_pos)
  have "nearest x - x = (real_of_int (round_even (x / ulp x)) - x / ulp x) * ulp x"
    using u by (simp add: nearest_def algebra_simps)
  then have "\<bar>nearest x - x\<bar> = \<bar>real_of_int (round_even (x / ulp x)) - x / ulp x\<bar> * ulp x"
    using u by (simp add: abs_mult)
  also have "\<dots> \<le> (1 / 2) * ulp x"
    using round_even_err [of "x / ulp x"] u by (intro mult_right_mono) simp_all
  finally show ?thesis by simp
qed

lemma nearest_in_binade:
  assumes "- 1022 \<le> e" "e \<le> 1023" "e = - 1022 \<or> 2 powi e \<le> \<bar>x\<bar>" "\<bar>x\<bar> < 2 powi (e + 1)"
  shows "nearest x = real_of_int (round_even (x / 2 powi (e - 52))) * 2 powi (e - 52)"
proof -
  have "binade x = e" by (rule binade_eqI) (use assms in simp_all)
  then show ?thesis by (simp add: nearest_def ulp_def)
qed


lemma pow2_1024: "(2::real) powi 1024 = 2 ^ 1024"
  by (simp add: power_int_def)

lemma binade_finite:
  assumes "\<bar>x\<bar> < 2 ^ 1024"
  shows "binade x \<le> 1023"
proof (rule ccontr)
  assume "\<not> binade x \<le> 1023"
  then have e: "binade x = 1024" using binade_le [of x] by simp
  then have "2 powi (binade x) \<le> \<bar>x\<bar>" by (intro binade_lower) simp
  then show False using assms e by (simp add: pow2_1024)
qed

lemma nearest_exact:
  assumes x: "x = real_of_int n * 2 powi k" and n: "\<bar>n\<bar> < 2 ^ 53" and k: "- 1074 \<le> k"
    and fin: "\<bar>x\<bar> < 2 ^ 1024"
  shows "nearest x = x"
proof -
  define e where "e = binade x"
  have j: "0 \<le> k - (e - 52)"
  proof (cases "e = - 1022")
    case True
    then show ?thesis using k by simp
  next
    case False
    then have "- 1022 < binade x" using binade_ge [of x] by (simp add: e_def)
    then have lo: "2 powi e \<le> \<bar>x\<bar>" unfolding e_def by (rule binade_lower)
    have "real_of_int \<bar>n\<bar> < real_of_int (2 ^ 53)" using n by (simp only: of_int_less_iff)
    then have "real_of_int \<bar>n\<bar> < 2 powi 53" by (simp add: power_int_def)
    then have "real_of_int \<bar>n\<bar> * 2 powi k < 2 powi 53 * 2 powi k"
      using pow2_pos [of k] by (simp add: mult_strict_right_mono)
    moreover have "\<bar>x\<bar> = real_of_int \<bar>n\<bar> * 2 powi k"
      using pow2_pos [of k] by (simp add: x abs_mult)
    ultimately have "\<bar>x\<bar> < 2 powi (53 + k)" by (simp add: pow2_add)
    then have "(2::real) powi e < 2 powi (53 + k)" using lo by simp
    then have "e < 53 + k"
      using pow2_mono [of "53 + k" e] by (cases "e < 53 + k") simp_all
    then show ?thesis by simp
  qed
  define m where "m = n * 2 ^ nat (k - (e - 52))"
  have "2 powi k = (2::real) powi (k - (e - 52)) * 2 powi (e - 52)"
    by (simp add: pow2_add [symmetric])
  then have "x = real_of_int n * 2 powi (k - (e - 52)) * 2 powi (e - 52)"
    by (simp add: x)
  also have "2 powi (k - (e - 52)) = real_of_int (2 ^ nat (k - (e - 52)))"
    using j by (rule pow2_nat)
  finally have xm: "x = real_of_int m * 2 powi (e - 52)"
    by (simp add: m_def)
  have "real_of_int m * 2 powi (e - 52) / 2 powi (e - 52) = real_of_int m"
    using pow2_pos [of "e - 52"] by simp
  then have "x / ulp x = real_of_int m" unfolding ulp_def e_def [symmetric] using xm by simp
  then have "round_even (x / ulp x) = m" by (simp add: round_even_of_int)
  then have "nearest x = real_of_int m * 2 powi (e - 52)"
    by (simp add: nearest_def ulp_def e_def)
  then show ?thesis using xm by simp
qed

lemma nearest_repr:
  assumes fin: "\<bar>nearest x\<bar> < 2 ^ 1024"
  shows "\<exists>n k. nearest x = real_of_int n * 2 powi k \<and> \<bar>n\<bar> < 2 ^ 53 \<and> - 1074 \<le> k"
proof -
  define e where "e = binade x"
  define N where "N = round_even (x / ulp x)"
  have u: "ulp x = 2 powi (e - 52)" by (simp add: ulp_def e_def)
  have y: "nearest x = real_of_int N * 2 powi (e - 52)" by (simp add: nearest_def N_def u)
  have ege: "- 1022 \<le> e" by (simp add: e_def binade_ge)
  have e1023: "e \<le> 1023"
  proof (rule ccontr)
    assume "\<not> e \<le> 1023"
    then have e: "e = 1024" using binade_le [of x] by (simp add: e_def)
    then have "2 powi 1024 \<le> \<bar>x\<bar>" using binade_lower [of x] by (simp add: e_def)
    then have "2 powi 52 * 2 powi 972 \<le> \<bar>x\<bar>" by (simp add: pow2_add [symmetric])
    then have "2 powi 52 \<le> \<bar>x\<bar> / 2 powi 972"
      using pow2_pos [of 972] by (simp add: pos_le_divide_eq)
    then have q: "real_of_int (2 ^ 52) \<le> \<bar>x / ulp x\<bar>"
      using pow2_pos [of 972] by (simp add: u e power_int_def)
    have "2 ^ 52 \<le> \<bar>N\<bar>"
    proof (cases "0 \<le> x")
      case True
      then have "real_of_int (2 ^ 52) \<le> x / ulp x" using q ulp_pos [of x] by simp
      then have "2 ^ 52 \<le> N" unfolding N_def by (rule round_even_ge)
      then show ?thesis by simp
    next
      case False
      then have "x / ulp x \<le> real_of_int (- (2 ^ 52))"
        using q ulp_pos [of x] by (simp add: abs_if divide_less_0_iff split: if_splits)
      then have "N \<le> - (2 ^ 52)" unfolding N_def by (rule round_even_le)
      then show ?thesis by simp
    qed
    then have "real_of_int (2 ^ 52) \<le> real_of_int \<bar>N\<bar>" by (simp only: of_int_le_iff)
    then have "2 powi 52 * 2 powi 972 \<le> real_of_int \<bar>N\<bar> * 2 powi 972"
      using pow2_pos [of 972] by (simp add: power_int_def)
    then have "2 powi 1024 \<le> \<bar>nearest x\<bar>"
      using pow2_pos [of 972] by (simp add: y e abs_mult pow2_add [symmetric])
    then show False using fin by (simp add: pow2_1024)
  qed
  have "\<bar>x\<bar> < 2 powi (e + 1)" using binade_upper [of x] e1023 by (simp add: e_def)
  moreover have "(2::real) powi (e + 1) = 2 ^ 53 * 2 powi (e - 52)"
    using pow2_add [of 53 "e - 52"] by (simp add: add.commute)
  ultimately have "\<bar>x\<bar> < 2 ^ 53 * 2 powi (e - 52)" by (simp only:)
  then have "\<bar>x\<bar> / 2 powi (e - 52) < 2 ^ 53"
    using pow2_pos [of "e - 52"] by (simp add: pos_divide_less_eq)
  then have q: "\<bar>x / ulp x\<bar> < real_of_int (2 ^ 53)"
    using pow2_pos [of "e - 52"] by (simp add: u)
  have q1: "x / ulp x \<le> real_of_int (2 ^ 53)" using q by linarith
  have q2: "real_of_int (- (2 ^ 53)) \<le> x / ulp x" using q by linarith
  have Nle: "N \<le> 2 ^ 53" unfolding N_def using q1 by (rule round_even_le)
  have Nge: "- (2 ^ 53) \<le> N" unfolding N_def using q2 by (rule round_even_ge)
  show ?thesis
  proof (cases "\<bar>N\<bar> < 2 ^ 53")
    case True
    then show ?thesis using y ege by (intro exI [of _ N] exI [of _ "e - 52"]) simp
  next
    case False
    then have "N = 2 ^ 53 \<or> N = - (2 ^ 53)" using Nle Nge by linarith
    then have "nearest x = real_of_int (N div 2) * 2 powi (e - 51) \<and> \<bar>N div 2\<bar> < 2 ^ 53"
    proof
      assume "N = 2 ^ 53"
      then show ?thesis
        using pow2_add [of 1 "e - 52"] by (simp add: y)
    next
      assume "N = - (2 ^ 53)"
      then show ?thesis
        using pow2_add [of 1 "e - 52"] by (simp add: y)
    qed
    then show ?thesis using ege by (intro exI [of _ "N div 2"] exI [of _ "e - 51"]) simp
  qed
qed

lemma nearest_idem:
  assumes "\<bar>nearest x\<bar> < 2 ^ 1024"
  shows "nearest (nearest x) = nearest x"
proof -
  obtain n k where "nearest x = real_of_int n * 2 powi k" "\<bar>n\<bar> < 2 ^ 53" "- 1074 \<le> k"
    using nearest_repr [OF assms] by blast
  then show ?thesis using assms by (rule nearest_exact)
qed

lemma nearest_min_pos:
  assumes "0 < nearest x"
  shows "2 powi (- 1074) \<le> nearest x"
proof -
  have u: "0 < ulp x" by (rule ulp_pos)
  have "0 < real_of_int (round_even (x / ulp x))"
    using assms u by (simp add: nearest_def zero_less_mult_iff)
  then have "1 \<le> round_even (x / ulp x)" by simp
  then have "1 \<le> real_of_int (round_even (x / ulp x))" by (simp only: of_int_1_le_iff)
  then have "ulp x \<le> nearest x"
    using u by (simp add: nearest_def)
  moreover have "2 powi (- 1074) \<le> ulp x"
    unfolding ulp_def using binade_ge [of x] by (intro pow2_mono) simp
  ultimately show ?thesis by simp
qed

lemma nearest_shrink:
  assumes s: "s = nearest x" "0 \<le> s" and c: "0 \<le> c" "c \<le> 1 / 2"
  shows "0 \<le> nearest (s * c) \<and> nearest (s * c) \<le> s"
proof (cases "s = 0")
  case True
  then show ?thesis by (simp add: nearest_0)
next
  case False
  then have spos: "0 < s" using s(2) by simp
  then have smin: "2 powi (- 1074) \<le> s" using nearest_min_pos [of x] s(1) by simp
  define z where "z = s * c"
  have z0: "0 \<le> z" using s(2) c(1) by (simp add: z_def)
  have zs: "2 * z \<le> s" using c(2) spos by (simp add: z_def)
  have lo: "0 \<le> nearest z" using z0 by (rule nearest_nonneg)
  have err: "nearest z \<le> z + ulp z / 2" using nearest_err [of z] by linarith
  have "ulp z / 2 \<le> s / 2"
  proof (cases "binade z = - 1022")
    case True
    then have "ulp z = 2 powi (- 1074)" by (simp add: ulp_def)
    then show ?thesis using smin by simp
  next
    case False
    then have "- 1022 < binade z" using binade_ge [of z] by simp
    then have "2 powi (binade z) \<le> z" using binade_lower [of z] z0 by simp
    moreover have "ulp z \<le> 2 powi (binade z)" unfolding ulp_def by (intro pow2_mono) simp
    ultimately show ?thesis using zs z0 by simp
  qed
  then have "nearest z \<le> s" using err zs z0 by linarith
  then show ?thesis using lo by (simp add: z_def)
qed

section \<open>Whole minutes\<close>

lemma ticks_per_minute_pos: "0 < ticks_per_minute"
  by (simp add: ticks_per_minute_def ticks_per_second_def)


lemma minutes_count_small:
  assumes "d < ticks_per_minute"
  shows "minutes_count d \<le> 0"
proof (cases "d < 0")
  case True
  then show ?thesis using ticks_per_minute_pos
    by (simp add: minutes_count_def signed_divide_int_def sgn_if pos_imp_zdiv_nonneg_iff)
next
  case False
  then have "d div ticks_per_minute = 0" using assms by simp
  then show ?thesis using False ticks_per_minute_pos
    by (simp add: minutes_count_def signed_divide_int_def sgn_if)
qed

section \<open>The fee in exact arithmetic\<close>

lemma minutes_count_eq:
  assumes "0 \<le> m" "m * ticks_per_minute \<le> d" "d < (m + 1) * ticks_per_minute"
  shows "minutes_count d = m"
proof -
  have k: "0 < ticks_per_minute" by (rule ticks_per_minute_pos)
  have "0 \<le> m * ticks_per_minute" using assms(1) k by simp
  then have d0: "0 \<le> d" using assms(2) by linarith
  have "d div ticks_per_minute = m"
  proof (rule int_div_pos_eq)
    show "d = ticks_per_minute * m + (d - m * ticks_per_minute)" by (simp add: algebra_simps)
    show "0 \<le> d - m * ticks_per_minute" using assms(2) by simp
    show "d - m * ticks_per_minute < ticks_per_minute" using assms(3) by (simp add: algebra_simps)
  qed
  then show ?thesis using d0 k
    by (auto simp add: minutes_count_def signed_divide_int_def sgn_if)
qed




section \<open>Searching and erasing\<close>

lemma find_if_le: "find_if P xs \<le> length xs"
  by (induction xs) auto

lemma find_if_end_iff: "find_if P xs = length xs \<longleftrightarrow> (\<forall>x \<in> set xs. \<not> P x)"
proof (induction xs)
  case Nil
  show ?case by simp
next
  case (Cons x xs)
  show ?case using Cons.IH by auto
qed

lemma find_if_first:
  assumes "\<forall>x \<in> set pre. \<not> P x" "P c"
  shows "find_if P (pre @ c # post) = length pre"
  using assms by (induction pre) auto

lemma find_if_split:
  assumes "\<exists>x \<in> set xs. P x"
  shows "\<exists>pre c post. xs = pre @ c # post \<and> P c \<and> (\<forall>x \<in> set pre. \<not> P x)"
  using assms
proof (induction xs)
  case Nil
  then show ?case by simp
next
  case (Cons x xs)
  show ?case
  proof (cases "P x")
    case True
    then have "x # xs = [] @ x # xs \<and> P x \<and> (\<forall>y \<in> set []. \<not> P y)" by simp
    then show ?thesis by blast
  next
    case False
    with Cons.prems have "\<exists>y \<in> set xs. P y" by auto
    then obtain pre c post where h: "xs = pre @ c # post" "P c" "\<forall>y \<in> set pre. \<not> P y"
      using Cons.IH by blast
    have "x # xs = (x # pre) @ c # post \<and> P c \<and> (\<forall>y \<in> set (x # pre). \<not> P y)"
      using h False by simp
    then show ?thesis by blast
  qed
qed

lemma erase_at_split: "erase (length pre) (pre @ c # post) = pre @ post"
  by (simp add: erase_def)

lemma remove_no_match:
  assumes "\<forall>c \<in> set (cars s). \<not> (id' c = i \<and> ownerName c = owner)"
  shows "removeCarByIdAndOwner now i owner s = (None, s)"
proof -
  have "find_if (\<lambda>c. id' c = i \<and> ownerName c = owner) (cars s) = length (cars s)"
    using assms by (simp add: find_if_end_iff)
  then show ?thesis by (simp add: removeCarByIdAndOwner_def)
qed

lemma remove_first_match:
  assumes "cars s = pre @ c # post" "id' c = i" "ownerName c = owner"
    "\<forall>x \<in> set pre. \<not> (id' x = i \<and> ownerName x = owner)"
  shows "removeCarByIdAndOwner now i owner s = (Some (make_bill now c), s\<lparr> cars := pre @ post \<rparr>)"
proof -
  have f: "find_if (\<lambda>c. id' c = i \<and> ownerName c = owner) (cars s) = length pre"
    unfolding assms(1) by (rule find_if_first) (use assms in auto)
  show ?thesis
    unfolding removeCarByIdAndOwner_def Let_def f
    by (simp add: assms(1) erase_at_split)
qed

lemma remove_success_iff:
  "fst (removeCarByIdAndOwner now i owner s) \<noteq> None \<longleftrightarrow>
     (\<exists>c \<in> set (cars s). id' c = i \<and> ownerName c = owner)"
proof -
  have "find_if (\<lambda>c. id' c = i \<and> ownerName c = owner) (cars s) = length (cars s) \<longleftrightarrow>
          (\<forall>c \<in> set (cars s). \<not> (id' c = i \<and> ownerName c = owner))"
    by (rule find_if_end_iff)
  then show ?thesis by (auto simp add: removeCarByIdAndOwner_def Let_def)
qed

section \<open>The counter and the capacity along a sequence of operations\<close>

lemma sint_succ:
  fixes x :: cint
  assumes "sint x < 2147483647"
  shows "sint (x + 1) = sint x + 1"
proof -
  have lo: "- (2 ^ 31) \<le> sint x" using sint_ge [of x] by simp
  have "sint (x + 1) = signed_take_bit (LENGTH(32) - 1) (sint x + sint (1 :: cint))"
    by (rule sint_word_add)
  also have "\<dots> = signed_take_bit 31 (sint x + 1)" by simp
  also have "\<dots> = sint x + 1"
    by (rule signed_take_bit_int_eq_self) (use lo assms in simp_all)
  finally show ?thesis .
qed

lemma parkCar_nextCarID: "nextCarID (parkCar inp s) = nextCarID s + 1"
  by (simp add: parkCar_def Let_def)

lemma parkCar_full: "\<not> length (cars s) < MAX_CAPACITY \<Longrightarrow> cars (parkCar inp s) = cars s"
  by (simp add: parkCar_def Let_def)

lemma parkCar_below:
  assumes "length (cars s) < MAX_CAPACITY"
  shows "\<exists>c. cars (parkCar inp s) = cars s @ [c] \<and> id' c = nextCarID s \<and>
              ownerName c = in_ownerName inp"
  using assms by (simp add: parkCar_def Let_def Car_ctor_def)

lemma parked_id_eq:
  "parked_id inp s = (if length (cars s) < MAX_CAPACITY then Some (nextCarID s) else None)"
proof (cases "length (cars s) < MAX_CAPACITY")
  case True
  then obtain c where "cars (parkCar inp s) = cars s @ [c]" "id' c = nextCarID s"
    using parkCar_below by blast
  then show ?thesis using True by (simp add: parked_id_def Let_def)
next
  case False
  then show ?thesis by (simp add: parked_id_def Let_def parkCar_full)
qed

lemma testAddCar_nextCarID: "nextCarID (testAddCar c s) = nextCarID s"
  by (simp add: testAddCar_def)

lemma remove_nextCarID: "nextCarID (snd (removeCarByIdAndOwner now i owner s)) = nextCarID s"
  by (simp add: removeCarByIdAndOwner_def Let_def)

lemma length_erase: "i < length xs \<Longrightarrow> Suc (length (erase i xs)) = length xs"
  by (simp add: erase_def)

lemma length_erase_le: "length (erase i xs) \<le> length xs"
  by (auto simp add: erase_def min_def)

lemma remove_length:
  "length (cars (snd (removeCarByIdAndOwner now i owner s))) \<le> length (cars s)"
  by (simp add: removeCarByIdAndOwner_def Let_def length_erase_le)

lemma step_capacity:
  assumes "length (cars s) \<le> MAX_CAPACITY"
  shows "length (cars (step x s)) \<le> MAX_CAPACITY"
proof (cases x)
  case (Park inp)
  then show ?thesis using assms by (simp add: parkCar_def Let_def)
next
  case (TestAdd c)
  then show ?thesis using assms by (simp add: testAddCar_def)
next
  case (Remove now i owner)
  then show ?thesis using assms remove_length [of now i owner s] by simp
qed

lemma run_capacity:
  "length (cars s) \<le> MAX_CAPACITY \<Longrightarrow> length (cars (run xs s)) \<le> MAX_CAPACITY"
  by (induction xs arbitrary: s) (simp_all add: step_capacity)

lemma step_nextCarID:
  "nextCarID (step x s) = nextCarID s + of_nat (park_attempts [x])"
  by (cases x) (simp_all add: parkCar_nextCarID testAddCar_nextCarID remove_nextCarID)

lemma run_nextCarID:
  "nextCarID (run xs s) = nextCarID s + of_nat (park_attempts xs)"
proof (induction xs arbitrary: s)
  case Nil
  show ?case by simp
next
  case (Cons x xs)
  show ?case by (cases x) (simp_all add: Cons.IH parkCar_nextCarID testAddCar_nextCarID remove_nextCarID)
qed

lemma run_append: "run (xs @ ys) s = run ys (run xs s)"
  by (induction xs arbitrary: s) simp_all

lemma admitted_ids_append:
  "admitted_ids (xs @ ys) s = admitted_ids xs s @ admitted_ids ys (run xs s)"
proof (induction xs arbitrary: s)
  case Nil
  show ?case by simp
next
  case (Cons x xs)
  show ?case by (cases x) (simp_all add: Cons.IH)
qed

lemma admitted_ids_increasing:
  assumes "sint (nextCarID s) + int (park_attempts xs) \<le> 2147483647"
  shows "sorted_wrt (\<lambda>a b. sint a < sint b) (admitted_ids xs s) \<and>
         (\<forall>i \<in> set (admitted_ids xs s).
            sint (nextCarID s) \<le> sint i \<and> sint i < sint (nextCarID s) + int (park_attempts xs))"
  using assms
proof (induction xs arbitrary: s)
  case Nil
  show ?case by simp
next
  case (Cons x xs)
  show ?case
  proof (cases x)
    case (Park inp)
    have lt: "sint (nextCarID s) < 2147483647" using Cons.prems Park by simp
    have nx: "sint (nextCarID (parkCar inp s)) = sint (nextCarID s) + 1"
      by (simp add: parkCar_nextCarID sint_succ [OF lt])
    have "sint (nextCarID (parkCar inp s)) + int (park_attempts xs) \<le> 2147483647"
      using Cons.prems Park nx by simp
    from Cons.IH [OF this]
    have ih: "sorted_wrt (\<lambda>a b. sint a < sint b) (admitted_ids xs (parkCar inp s))"
      "\<forall>i \<in> set (admitted_ids xs (parkCar inp s)).
          sint (nextCarID s) + 1 \<le> sint i \<and> sint i < sint (nextCarID s) + 1 + int (park_attempts xs)"
      by (simp_all add: nx)
    show ?thesis
      using ih Park by (auto simp add: parked_id_eq sorted_wrt_append)
  next
    case (TestAdd c)
    then show ?thesis using Cons.IH [of "testAddCar c s"] Cons.prems
      by (simp add: testAddCar_nextCarID)
  next
    case (Remove now i owner)
    then show ?thesis using Cons.IH [of "snd (removeCarByIdAndOwner now i owner s)"] Cons.prems
      by (simp add: remove_nextCarID)
  qed
qed

lemma sorted_sint_distinct:
  "sorted_wrt (\<lambda>a b. sint a < sint b) (xs :: cint list) \<Longrightarrow> distinct xs"
  by (induction xs) auto

lemma step_admission_length:
  assumes "length (cars s) \<le> MAX_CAPACITY" "park_attempts [x] = 1 \<or> (\<exists>c. x = TestAdd c)"
  shows "length (cars (step x s)) = min MAX_CAPACITY (Suc (length (cars s)))"
proof (cases x)
  case (Park inp)
  then show ?thesis using assms(1) by (auto simp add: parkCar_def Let_def)
next
  case (TestAdd c)
  then show ?thesis using assms(1) by (auto simp add: testAddCar_def)
next
  case (Remove now i owner)
  then show ?thesis using assms(2) by simp
qed

lemma run_replicate_length:
  assumes "length (cars s) \<le> MAX_CAPACITY" "park_attempts [x] = 1 \<or> (\<exists>c. x = TestAdd c)"
  shows "length (cars (run (replicate n x) s)) = min MAX_CAPACITY (length (cars s) + n)"
  using assms(1)
proof (induction n arbitrary: s)
  case 0
  then show ?case by simp
next
  case (Suc n)
  have l: "length (cars (step x s)) = min MAX_CAPACITY (Suc (length (cars s)))"
    using Suc.prems assms(2) by (rule step_admission_length)
  then have "length (cars (step x s)) \<le> MAX_CAPACITY" by simp
  from Suc.IH [OF this] show ?case using l by (simp add: min_def)
qed

lemma full_lot_count:
  "getCarCount (run (replicate 100 (TestAdd c)) ParkingLot_init) = 100"
proof -
  have "length (cars (run (replicate 100 (TestAdd c)) ParkingLot_init)) =
          min MAX_CAPACITY (length (cars ParkingLot_init) + 100)"
    by (rule run_replicate_length) (simp_all add: ParkingLot_init_def)
  then show ?thesis by (simp add: getCarCount_def MAX_CAPACITY_def ParkingLot_init_def)
qed

text \<open>
  Claim C2. For every sequence of operations on a fresh lot (admissions through
  \<open>parkCar\<close>, through the test-only \<open>testAddCar\<close>, and removals), the number of
  records held never exceeds 100; an admission attempted while 100 records are
  held, on either path, creates no record, returns normally (both functions are
  total) and leaves the count at 100.
\<close>

theorem C2_capacity_never_exceeded:
  "getCarCount (run xs ParkingLot_init) \<le> 100 \<and>
   (getCarCount s = 100 \<longrightarrow>
      cars (parkCar inp s) = cars s \<and> getCarCount (parkCar inp s) = 100 \<and>
      cars (testAddCar c s) = cars s \<and> getCarCount (testAddCar c s) = 100)"
proof -
  have "length (cars (run xs ParkingLot_init)) \<le> MAX_CAPACITY"
    by (rule run_capacity) (simp add: ParkingLot_init_def)
  then have a: "getCarCount (run xs ParkingLot_init) \<le> 100"
    by (simp add: getCarCount_def MAX_CAPACITY_def)
  have b: "cars (parkCar inp s) = cars s" "cars (testAddCar c s) = cars s"
    if "getCarCount s = 100"
    using that by (simp_all add: getCarCount_def parkCar_full testAddCar_def MAX_CAPACITY_def)
  show ?thesis using a b by (simp add: getCarCount_def)
qed

theorem C2_capacity_never_exceeded_witness:
  "getCarCount (run (replicate 100 (TestAdd (createCar 0 1000 ''Owner'' False 50))) ParkingLot_init) = 100 \<and>
   getCarCount (run (replicate 101 (TestAdd (createCar 0 1000 ''Owner'' False 50))) ParkingLot_init) \<le> 100 \<and>
   getCarCount (parkCar (typed_entry 0 ''Extra Owner'' 50 False)
      (run (replicate 100 (TestAdd (createCar 0 1000 ''Owner'' False 50))) ParkingLot_init)) = 100 \<and>
   getCarCount (testAddCar (createCar 0 2001 ''Extra Owner'' False 50)
      (run (replicate 100 (TestAdd (createCar 0 1000 ''Owner'' False 50))) ParkingLot_init)) = 100"
  using C2_capacity_never_exceeded [of "replicate 101 (TestAdd (createCar 0 1000 ''Owner'' False 50))"
      "run (replicate 100 (TestAdd (createCar 0 1000 ''Owner'' False 50))) ParkingLot_init"
      "typed_entry 0 ''Extra Owner'' 50 False" "createCar 0 2001 ''Extra Owner'' False 50"]
    full_lot_count [of "createCar 0 1000 ''Owner'' False 50"]
  by simp

section \<open>Removal matches id and owner exactly\<close>

text \<open>
  Claim C3. For every id and owner string, the removal succeeds if and only if
  some stored record has exactly that id and exactly that owner name (equality of
  the character sequences: case and white space count). When no record matches
  both, the outcome is not-found and the lot is unchanged; when one does, the
  first matching record in insertion order is the one removed, and the records
  around it keep their order.
\<close>

theorem C3_removal_exact_match:
  "(fst (removeCarByIdAndOwner now i owner s) \<noteq> None \<longleftrightarrow>
      (\<exists>c \<in> set (cars s). id' c = i \<and> ownerName c = owner)) \<and>
   ((\<forall>c \<in> set (cars s). \<not> (id' c = i \<and> ownerName c = owner)) \<longrightarrow>
      removeCarByIdAndOwner now i owner s = (None, s)) \<and>
   ((\<exists>c \<in> set (cars s). id' c = i \<and> ownerName c = owner) \<longrightarrow>
      (\<exists>pre c post. cars s = pre @ c # post \<and> id' c = i \<and> ownerName c = owner \<and>
         (\<forall>x \<in> set pre. \<not> (id' x = i \<and> ownerName x = owner)) \<and>
         snd (removeCarByIdAndOwner now i owner s) = s\<lparr> cars := pre @ post \<rparr>))"
proof (intro conjI impI)
  show "fst (removeCarByIdAndOwner now i owner s) \<noteq> None \<longleftrightarrow>
      (\<exists>c \<in> set (cars s). id' c = i \<and> ownerName c = owner)"
    by (rule remove_success_iff)
next
  assume "\<forall>c \<in> set (cars s). \<not> (id' c = i \<and> ownerName c = owner)"
  then show "removeCarByIdAndOwner now i owner s = (None, s)" by (rule remove_no_match)
next
  assume "\<exists>c \<in> set (cars s). id' c = i \<and> ownerName c = owner"
  then obtain pre c post where h: "cars s = pre @ c # post" "id' c = i \<and> ownerName c = owner"
      "\<forall>x \<in> set pre. \<not> (id' x = i \<and> ownerName x = owner)"
    using find_if_split [of "cars s" "\<lambda>c. id' c = i \<and> ownerName c = owner"] by blast
  have "removeCarByIdAndOwner now i owner s = (Some (make_bill now c), s\<lparr> cars := pre @ post \<rparr>)"
    using h by (intro remove_first_match) simp_all
  then have "snd (removeCarByIdAndOwner now i owner s) = s\<lparr> cars := pre @ post \<rparr>" by simp
  then show "\<exists>pre c post. cars s = pre @ c # post \<and> id' c = i \<and> ownerName c = owner \<and>
         (\<forall>x \<in> set pre. \<not> (id' x = i \<and> ownerName x = owner)) \<and>
         snd (removeCarByIdAndOwner now i owner s) = s\<lparr> cars := pre @ post \<rparr>"
    using h by blast
qed

theorem C3_removal_exact_match_witness:
  "removeCarByIdAndOwner 0 1001 ''john doe''
      \<lparr> cars = [createCar 0 1001 ''John Doe'' False 50], nextCarID = 1001, silentMode = True \<rparr>
     = (None, \<lparr> cars = [createCar 0 1001 ''John Doe'' False 50], nextCarID = 1001, silentMode = True \<rparr>) \<and>
   removeCarByIdAndOwner 0 1001 ''John Doe ''
      \<lparr> cars = [createCar 0 1001 ''John Doe'' False 50], nextCarID = 1001, silentMode = True \<rparr>
     = (None, \<lparr> cars = [createCar 0 1001 ''John Doe'' False 50], nextCarID = 1001, silentMode = True \<rparr>) \<and>
   fst (removeCarByIdAndOwner 0 1001 ''John Doe''
      \<lparr> cars = [createCar 0 1001 ''John Doe'' False 50], nextCarID = 1001, silentMode = True \<rparr>) \<noteq> None \<and>
   cars (snd (removeCarByIdAndOwner 0 1001 ''John Doe''
      \<lparr> cars = [createCar 0 1001 ''John Doe'' False 50], nextCarID = 1001, silentMode = True \<rparr>)) = []"
  using C3_removal_exact_match [of 0 1001 "''john doe''"
      "\<lparr> cars = [createCar 0 1001 ''John Doe'' False 50], nextCarID = 1001, silentMode = True \<rparr>"]
    C3_removal_exact_match [of 0 1001 "''John Doe ''"
      "\<lparr> cars = [createCar 0 1001 ''John Doe'' False 50], nextCarID = 1001, silentMode = True \<rparr>"]
    C3_removal_exact_match [of 0 1001 "''John Doe''"
      "\<lparr> cars = [createCar 0 1001 ''John Doe'' False 50], nextCarID = 1001, silentMode = True \<rparr>"]
  by (auto simp add: createCar_def Car_ctor_def Cons_eq_append_conv)

section \<open>Lookup by id\<close>

lemma getCarByID_first:
  assumes "cars s = pre @ c # post" "id' c = i" "\<forall>x \<in> set pre. id' x \<noteq> i"
  shows "getCarByID now i s = c"
proof -
  have f: "find_if (\<lambda>car. id' car = i) (cars s) = length pre"
    unfolding assms(1) by (rule find_if_first) (use assms in auto)
  show ?thesis
    unfolding getCarByID_def Let_def f by (simp add: assms(1))
qed

lemma getCarByID_none:
  assumes "\<forall>c \<in> set (cars s). id' c \<noteq> i"
  shows "getCarByID now i s = Car_default now"
proof -
  have "find_if (\<lambda>car. id' car = i) (cars s) = length (cars s)"
    using assms by (simp add: find_if_end_iff)
  then show ?thesis by (simp add: getCarByID_def)
qed

text \<open>
  Claim C9, as amended. For every id, \<open>getCarByID\<close> scans the records in order and
  returns (a copy of) the first stored record whose id matches; for an id that no
  record carries it returns, without raising an error, a default-constructed
  record: its id is 0, its text attributes are empty and its flags are false,
  but its hourly rate is 50 and its parking time is the time of the call.
\<close>

theorem C9_lookup_first_match_or_default:
  "((\<exists>c \<in> set (cars s). id' c = i) \<longrightarrow>
      (\<exists>pre c post. cars s = pre @ c # post \<and> id' c = i \<and> (\<forall>x \<in> set pre. id' x \<noteq> i) \<and>
         getCarByID now i s = c)) \<and>
   ((\<forall>c \<in> set (cars s). id' c \<noteq> i) \<longrightarrow>
      getCarByID now i s = Car_default now \<and>
      id' (getCarByID now i s) = 0 \<and>
      hourlyRate (getCarByID now i s) = 50 \<and>
      parkingTime (getCarByID now i s) = now \<and>
      ownerName (getCarByID now i s) = [] \<and>
      licensePlate (getCarByID now i s) = [] \<and>
      \<not> reservedSlot (getCarByID now i s) \<and>
      \<not> dynamicPricing (getCarByID now i s))"
proof (intro conjI impI)
  assume "\<exists>c \<in> set (cars s). id' c = i"
  then obtain pre c post where h: "cars s = pre @ c # post" "id' c = i"
      "\<forall>x \<in> set pre. id' x \<noteq> i"
    using find_if_split [of "cars s" "\<lambda>c. id' c = i"] by blast
  then have "getCarByID now i s = c" by (rule getCarByID_first)
  then show "\<exists>pre c post. cars s = pre @ c # post \<and> id' c = i \<and>
      (\<forall>x \<in> set pre. id' x \<noteq> i) \<and> getCarByID now i s = c"
    using h by blast
next
  assume a: "\<forall>c \<in> set (cars s). id' c \<noteq> i"
  show "getCarByID now i s = Car_default now" using a by (rule getCarByID_none)
  show "id' (getCarByID now i s) = 0" by (simp add: getCarByID_none [OF a] Car_default_def)
  show "hourlyRate (getCarByID now i s) = 50" by (simp add: getCarByID_none [OF a] Car_default_def)
  show "parkingTime (getCarByID now i s) = now" by (simp add: getCarByID_none [OF a] Car_default_def)
  show "ownerName (getCarByID now i s) = []" by (simp add: getCarByID_none [OF a] Car_default_def)
  show "licensePlate (getCarByID now i s) = []" by (simp add: getCarByID_none [OF a] Car_default_def)
  show "\<not> reservedSlot (getCarByID now i s)" by (simp add: getCarByID_none [OF a] Car_default_def)
  show "\<not> dynamicPricing (getCarByID now i s)" by (simp add: getCarByID_none [OF a] Car_default_def)
qed

theorem C9_lookup_first_match_or_default_witness:
  "getCarByID 7 200
      \<lparr> cars = [createCar 0 200 ''Old Owner'' False 50, createCar 0 200 ''New Owner'' False 50],
        nextCarID = 1001, silentMode = True \<rparr> = createCar 0 200 ''Old Owner'' False 50 \<and>
   getCarByID 7 9999
      \<lparr> cars = [createCar 0 200 ''Old Owner'' False 50, createCar 0 200 ''New Owner'' False 50],
        nextCarID = 1001, silentMode = True \<rparr> = Car_default 7 \<and>
   id' (getCarByID 7 9999
      \<lparr> cars = [createCar 0 200 ''Old Owner'' False 50, createCar 0 200 ''New Owner'' False 50],
        nextCarID = 1001, silentMode = True \<rparr>) = 0"
  using C9_lookup_first_match_or_default [of "\<lparr> cars = [createCar 0 200 ''Old Owner'' False 50, createCar 0 200 ''New Owner'' False 50],
        nextCarID = 1001, silentMode = True \<rparr>" 200 7]
    C9_lookup_first_match_or_default [of "\<lparr> cars = [createCar 0 200 ''Old Owner'' False 50, createCar 0 200 ''New Owner'' False 50],
        nextCarID = 1001, silentMode = True \<rparr>" 9999 7]
  by (auto simp add: createCar_def Car_ctor_def Cons_eq_append_conv)

text \<open>
  The sentinel is not zero-valued: looking up an absent id in a fresh lot at clock
  reading 7 gives a record with id 0 whose hourly rate and parking time are not 0.
\<close>

theorem C9_sentinel_not_zero_valued:
  "id' (getCarByID 7 9999 ParkingLot_init) = 0 \<and>
   hourlyRate (getCarByID 7 9999 ParkingLot_init) \<noteq> 0 \<and>
   parkingTime (getCarByID 7 9999 ParkingLot_init) \<noteq> 0"
  by (simp add: getCarByID_def ParkingLot_init_def Car_default_def)

section \<open>The test-only admission\<close>

text \<open>
  Claim C10. For every car value \<open>c\<close> supplied by the caller, \<open>testAddCar\<close> appends
  \<open>c\<close> exactly as supplied whenever fewer than 100 records are held: the id of
  \<open>c\<close> is kept, the counter \<open>nextCarID\<close> is neither read (the result does not
  depend on it) nor advanced, and no check for a duplicate id is made, so that two
  records with equal ids can be held together; with 100 records held the lot is
  unchanged.
\<close>

theorem C10_testAddCar_verbatim:
  "(length (cars s) < 100 \<longrightarrow>
      testAddCar c s = s\<lparr> cars := cars s @ [c] \<rparr> \<and>
      last (cars (testAddCar c s)) = c \<and>
      nextCarID (testAddCar c s) = nextCarID s) \<and>
   testAddCar c (s\<lparr> nextCarID := n \<rparr>) = (testAddCar c s)\<lparr> nextCarID := n \<rparr> \<and>
   (length (cars s) < 99 \<and> id' c1 = id' c \<longrightarrow>
      cars (testAddCar c1 (testAddCar c s)) = cars s @ [c, c1]) \<and>
   (\<exists>a b. a \<noteq> b \<and> id' a = id' b \<and> cars (testAddCar b (testAddCar a ParkingLot_init)) = [a, b]) \<and>
   (length (cars s) = 100 \<longrightarrow> testAddCar c s = s)"
proof (intro conjI impI)
  assume a: "length (cars s) < 100"
  show "testAddCar c s = s\<lparr> cars := cars s @ [c] \<rparr>"
    using a by (simp add: testAddCar_def MAX_CAPACITY_def)
  show "last (cars (testAddCar c s)) = c"
    using a by (simp add: testAddCar_def MAX_CAPACITY_def)
  show "nextCarID (testAddCar c s) = nextCarID s"
    by (simp add: testAddCar_def)
next
  show "testAddCar c (s\<lparr> nextCarID := n \<rparr>) = (testAddCar c s)\<lparr> nextCarID := n \<rparr>"
    by (simp add: testAddCar_def)
next
  assume "length (cars s) < 99 \<and> id' c1 = id' c"
  then show "cars (testAddCar c1 (testAddCar c s)) = cars s @ [c, c1]"
    by (simp add: testAddCar_def MAX_CAPACITY_def)
next
  have "Car_default 0 \<noteq> Car_default 1 \<and> id' (Car_default 0) = id' (Car_default 1) \<and>
        cars (testAddCar (Car_default 1) (testAddCar (Car_default 0) ParkingLot_init))
          = [Car_default 0, Car_default 1]"
    by (simp add: testAddCar_def MAX_CAPACITY_def ParkingLot_init_def Car_default_def)
  then show "\<exists>a b. a \<noteq> b \<and> id' a = id' b \<and>
      cars (testAddCar b (testAddCar a ParkingLot_init)) = [a, b]"
    by blast
next
  assume "length (cars s) = 100"
  then show "testAddCar c s = s" by (simp add: testAddCar_def MAX_CAPACITY_def)
qed

theorem C10_testAddCar_verbatim_witness:
  "cars (testAddCar (createCar 0 200 ''New Owner'' False 50)
      (testAddCar (createCar 0 200 ''Old Owner'' False 50) ParkingLot_init))
     = [createCar 0 200 ''Old Owner'' False 50, createCar 0 200 ''New Owner'' False 50] \<and>
   nextCarID (testAddCar (createCar 0 200 ''Old Owner'' False 50) ParkingLot_init) = 1001 \<and>
   testAddCar (createCar 0 2001 ''Extra Owner'' False 50)
      \<lparr> cars = replicate 100 (createCar 0 1000 ''Owner'' False 50), nextCarID = 1001, silentMode = True \<rparr>
     = \<lparr> cars = replicate 100 (createCar 0 1000 ''Owner'' False 50), nextCarID = 1001, silentMode = True \<rparr>"
proof -
  let ?old = "createCar 0 200 ''Old Owner'' False 50"
  let ?new = "createCar 0 200 ''New Owner'' False 50"
  let ?extra = "createCar 0 2001 ''Extra Owner'' False 50"
  let ?full = "\<lparr> cars = replicate 100 (createCar 0 1000 ''Owner'' False 50),
                  nextCarID = 1001, silentMode = True \<rparr>"
  have h1: "length (cars ParkingLot_init) < 99 \<and> id' ?new = id' ?old"
    by (simp add: ParkingLot_init_def createCar_def Car_ctor_def)
  have h2: "length (cars ParkingLot_init) < 100"
    by (simp add: ParkingLot_init_def)
  have h3: "length (cars ?full) = 100" by simp
  have "cars (testAddCar ?new (testAddCar ?old ParkingLot_init)) = cars ParkingLot_init @ [?old, ?new]"
    using C10_testAddCar_verbatim [of ParkingLot_init ?old 0 ?new] h1 by blast
  then have a: "cars (testAddCar ?new (testAddCar ?old ParkingLot_init)) = [?old, ?new]"
    by (simp add: ParkingLot_init_def)
  have "nextCarID (testAddCar ?old ParkingLot_init) = nextCarID ParkingLot_init"
    using C10_testAddCar_verbatim [of ParkingLot_init ?old 0 ?new] h2 by blast
  then have b: "nextCarID (testAddCar ?old ParkingLot_init) = 1001"
    by (simp add: ParkingLot_init_def)
  have c: "testAddCar ?extra ?full = ?full"
    using C10_testAddCar_verbatim [of ?full ?extra 0 ?extra] h3 by blast
  show ?thesis using a b c by blast
qed

section \<open>The identifier counter\<close>

lemma parkCar_keeps: "set (cars s) \<subseteq> set (cars (parkCar inp s))"
  by (auto simp add: parkCar_def Let_def)

lemma run_parks_keep: "set (cars s) \<subseteq> set (cars (run (replicate n (Park inp)) s))"
proof (induction n arbitrary: s)
  case 0
  show ?case by simp
next
  case (Suc n)
  have "set (cars s) \<subseteq> set (cars (parkCar inp s))" by (rule parkCar_keeps)
  also have "\<dots> \<subseteq> set (cars (run (replicate n (Park inp)) (parkCar inp s)))" by (rule Suc.IH)
  finally show ?case by simp
qed

lemma park_attempts_replicate: "park_attempts (replicate n (Park inp)) = n"
  by (induction n) simp_all

lemma remove_shrinks:
  assumes "\<exists>c \<in> set (cars s). id' c = i \<and> ownerName c = owner"
  shows "length (cars (snd (removeCarByIdAndOwner now i owner s))) < length (cars s)"
proof -
  let ?P = "\<lambda>c. id' c = i \<and> ownerName c = owner"
  have "find_if ?P (cars s) \<noteq> length (cars s)" using assms by (simp add: find_if_end_iff)
  then have lt: "find_if ?P (cars s) < length (cars s)"
    using find_if_le [of ?P "cars s"] by simp
  then have "Suc (length (erase (find_if ?P (cars s)) (cars s))) = length (cars s)"
    by (rule length_erase)
  then show ?thesis using lt by (simp add: removeCarByIdAndOwner_def Let_def)
qed

lemma wrapped_counter_repeats_id:
  assumes "0 < n" "(of_nat n :: cint) = 0"
  shows "\<not> distinct (admitted_ids
           (replicate n (Park inp) @ [Remove now 1001 (in_ownerName inp), Park inp])
           ParkingLot_init)"
proof -
  let ?s0 = "ParkingLot_init"
  let ?xs = "replicate n (Park inp)"
  let ?S = "run ?xs ?s0"
  let ?S1 = "snd (removeCarByIdAndOwner now 1001 (in_ownerName inp) ?S)"
  obtain m where n: "n = Suc m" using assms(1) by (cases n) simp_all
  have empty: "length (cars ?s0) < MAX_CAPACITY"
    by (simp add: ParkingLot_init_def MAX_CAPACITY_def)
  have first: "1001 \<in> set (admitted_ids ?xs ?s0)"
    using empty by (simp add: n parked_id_eq ParkingLot_init_def)
  obtain c where c: "cars (parkCar inp ?s0) = cars ?s0 @ [c]" "id' c = nextCarID ?s0"
      "ownerName c = in_ownerName inp"
    using parkCar_below [OF empty] by blast
  have "c \<in> set (cars (parkCar inp ?s0))" using c(1) by simp
  then have "c \<in> set (cars (run (replicate m (Park inp)) (parkCar inp ?s0)))"
    using run_parks_keep by blast
  then have cin: "c \<in> set (cars ?S)" by (simp add: n)
  have cid: "id' c = 1001" using c(2) by (simp add: ParkingLot_init_def)
  have cap: "length (cars ?S) \<le> MAX_CAPACITY"
    by (rule run_capacity) (simp add: ParkingLot_init_def)
  have "length (cars ?S1) < length (cars ?S)"
    by (rule remove_shrinks) (use cin cid c(3) in blast)
  then have room: "length (cars ?S1) < MAX_CAPACITY" using cap by simp
  have "nextCarID ?S = nextCarID ?s0 + of_nat (park_attempts ?xs)" by (rule run_nextCarID)
  then have "nextCarID ?S = 1001"
    by (simp add: park_attempts_replicate assms(2) ParkingLot_init_def)
  then have cnt: "nextCarID ?S1 = 1001" by (simp add: remove_nextCarID)
  have "admitted_ids [Remove now 1001 (in_ownerName inp), Park inp] ?S = [1001]"
    using room cnt by (simp add: parked_id_eq)
  then have "admitted_ids (?xs @ [Remove now 1001 (in_ownerName inp), Park inp]) ?s0
      = admitted_ids ?xs ?s0 @ [1001]"
    by (simp add: admitted_ids_append)
  then show ?thesis using first by simp
qed

lemma run_counter_sint:
  assumes "sint (nextCarID s) + int (park_attempts xs) \<le> 2147483647"
  shows "sint (nextCarID (run xs s)) = sint (nextCarID s) + int (park_attempts xs)"
  using assms
proof (induction xs arbitrary: s)
  case Nil
  show ?case by simp
next
  case (Cons x xs)
  show ?case
  proof (cases x)
    case (Park inp)
    have lt: "sint (nextCarID s) < 2147483647" using Cons.prems Park by simp
    have nx: "sint (nextCarID (parkCar inp s)) = sint (nextCarID s) + 1"
      by (simp add: parkCar_nextCarID sint_succ [OF lt])
    have "sint (nextCarID (parkCar inp s)) + int (park_attempts xs) \<le> 2147483647"
      using Cons.prems Park nx by simp
    from Cons.IH [OF this] show ?thesis using Park nx by simp
  next
    case (TestAdd c)
    then show ?thesis using Cons.IH [of "testAddCar c s"] Cons.prems
      by (simp add: testAddCar_nextCarID)
  next
    case (Remove now i owner)
    then show ?thesis using Cons.IH [of "snd (removeCarByIdAndOwner now i owner s)"] Cons.prems
      by (simp add: remove_nextCarID)
  qed
qed

text \<open>
  Claim C4, evaluated at the input where the code departs from it. On a fresh lot,
  100 calls of \<open>parkCar\<close> succeed and leave 100 records and the counter at 1101.
  The next call is rejected for lack of capacity: no id is handed out and the
  records are unchanged, and yet the counter has advanced to 1102, because
  \<open>nextCarID++\<close> is evaluated on line 184, before the capacity test of line 194.
  The claim has the counter unchanged by a rejected admission.
\<close>

theorem C4_rejected_admission_advances_counter:
  "getCarCount (run (replicate 100 (Park (typed_entry 0 ''A'' 50 False))) ParkingLot_init) = 100 \<and>
   nextCarID (run (replicate 100 (Park (typed_entry 0 ''A'' 50 False))) ParkingLot_init) = 1101 \<and>
   parked_id (typed_entry 0 ''B'' 50 False)
     (run (replicate 100 (Park (typed_entry 0 ''A'' 50 False))) ParkingLot_init) = None \<and>
   cars (parkCar (typed_entry 0 ''B'' 50 False)
          (run (replicate 100 (Park (typed_entry 0 ''A'' 50 False))) ParkingLot_init))
     = cars (run (replicate 100 (Park (typed_entry 0 ''A'' 50 False))) ParkingLot_init) \<and>
   nextCarID (parkCar (typed_entry 0 ''B'' 50 False)
          (run (replicate 100 (Park (typed_entry 0 ''A'' 50 False))) ParkingLot_init)) = 1102"
proof -
  let ?S = "run (replicate 100 (Park (typed_entry 0 ''A'' 50 False))) ParkingLot_init"
  have "length (cars ?S) = min MAX_CAPACITY (length (cars ParkingLot_init) + 100)"
    by (rule run_replicate_length) (simp_all add: ParkingLot_init_def)
  then have len: "length (cars ?S) = 100"
    by (simp add: MAX_CAPACITY_def ParkingLot_init_def)
  then have full: "\<not> length (cars ?S) < MAX_CAPACITY" by (simp add: MAX_CAPACITY_def)
  have "nextCarID ?S = nextCarID ParkingLot_init + of_nat (park_attempts (replicate 100 (Park (typed_entry 0 ''A'' 50 False))))"
    by (rule run_nextCarID)
  then have cnt: "nextCarID ?S = 1101"
    by (simp add: park_attempts_replicate ParkingLot_init_def)
  have a: "getCarCount ?S = 100" using len by (simp add: getCarCount_def)
  have b: "parked_id (typed_entry 0 ''B'' 50 False) ?S = None"
    using full by (simp add: parked_id_eq)
  have c: "cars (parkCar (typed_entry 0 ''B'' 50 False) ?S) = cars ?S"
    using full by (rule parkCar_full)
  have d: "nextCarID (parkCar (typed_entry 0 ''B'' 50 False) ?S) = 1102"
    by (simp add: parkCar_nextCarID cnt)
  show ?thesis using a cnt b c d by blast
qed

text \<open>
  Claim C5, as amended. For every sequence of admissions, test-only additions and
  removals on a fresh lot that contains fewer than \<open>2^31 - 1001 = 2147482647\<close>
  calls of \<open>parkCar\<close>, no two successful admissions receive the same id: the
  counter starts at 1001, the ids handed out strictly increase (as signed
  integers), none is below 1001, and the counter is never reset, whatever
  removals come in between: after the sequence it stands at 1001 plus the number
  of calls.
\<close>

theorem C5_ids_unique_below_overflow:
  assumes "park_attempts xs < 2147482647"
  shows "distinct (admitted_ids xs ParkingLot_init) \<and>
         sorted_wrt (\<lambda>a b. sint a < sint b) (admitted_ids xs ParkingLot_init) \<and>
         (\<forall>i \<in> set (admitted_ids xs ParkingLot_init). 1001 \<le> sint i) \<and>
         nextCarID ParkingLot_init = 1001 \<and>
         sint (nextCarID (run xs ParkingLot_init)) = 1001 + int (park_attempts xs)"
proof -
  have s0: "sint (nextCarID ParkingLot_init) = 1001" by (simp add: ParkingLot_init_def)
  have b: "sint (nextCarID ParkingLot_init) + int (park_attempts xs) \<le> 2147483647"
    using assms s0 by simp
  from admitted_ids_increasing [OF b]
  have inc: "sorted_wrt (\<lambda>a b. sint a < sint b) (admitted_ids xs ParkingLot_init)"
    and lo: "\<forall>i \<in> set (admitted_ids xs ParkingLot_init). 1001 \<le> sint i"
    using s0 by simp_all
  have d: "distinct (admitted_ids xs ParkingLot_init)"
    using inc by (rule sorted_sint_distinct)
  have cnt: "sint (nextCarID (run xs ParkingLot_init)) = 1001 + int (park_attempts xs)"
    using run_counter_sint [OF b] s0 by simp
  show ?thesis using d inc lo cnt by (simp add: ParkingLot_init_def)
qed

theorem C5_ids_unique_below_overflow_witness:
  "park_attempts [Park (typed_entry 0 ''A'' 50 False), Park (typed_entry 0 ''B'' 50 False),
       Remove 0 1001 ''A'', Park (typed_entry 0 ''C'' 50 False)] < 2147482647 \<and>
   distinct (admitted_ids [Park (typed_entry 0 ''A'' 50 False), Park (typed_entry 0 ''B'' 50 False),
       Remove 0 1001 ''A'', Park (typed_entry 0 ''C'' 50 False)] ParkingLot_init) \<and>
   sint (nextCarID (run [Park (typed_entry 0 ''A'' 50 False), Park (typed_entry 0 ''B'' 50 False),
       Remove 0 1001 ''A'', Park (typed_entry 0 ''C'' 50 False)] ParkingLot_init)) = 1004"
  using C5_ids_unique_below_overflow [of "[Park (typed_entry 0 ''A'' 50 False), Park (typed_entry 0 ''B'' 50 False),
       Remove 0 1001 ''A'', Park (typed_entry 0 ''C'' 50 False)]"]
  by simp

text \<open>
  Without the bound the claim fails: the counter is a 32-bit integer, and after
  \<open>2^32\<close> calls of \<open>parkCar\<close> it stands at 1001 again. Once a record has been
  removed to make room, the next admission receives the id 1001 a second time.
\<close>

theorem C5_wrapped_counter_reuses_id:
  "\<not> distinct (admitted_ids
       (replicate 4294967296 (Park (typed_entry 0 ''A'' 50 False))
          @ [Remove 0 1001 ''A'', Park (typed_entry 0 ''A'' 50 False)])
       ParkingLot_init)"
  using wrapped_counter_repeats_id [of 4294967296 "typed_entry 0 ''A'' 50 False" 0]
  by (simp add: typed_entry_def)

section \<open>Properties of the double operations\<close>

lemma rnd_cases:
  obtains (fin) "rnd x = Finite (nearest x)" "\<bar>nearest x\<bar> < 2 ^ 1024"
  | (pinf) "rnd x = PosInf" "2 ^ 1024 \<le> nearest x"
  | (ninf) "rnd x = NegInf" "nearest x \<le> - (2 ^ 1024)"
  by (cases "2 ^ 1024 \<le> nearest x"; cases "nearest x \<le> - (2 ^ 1024)")
    (auto simp add: rnd_def Let_def)

lemma rnd_0: "rnd 0 = Finite 0"
  by (simp add: rnd_def nearest_0)

lemma ulp_le: "\<bar>x\<bar> < 2 ^ 1024 \<Longrightarrow> ulp x \<le> 2 ^ 971"
proof -
  assume "\<bar>x\<bar> < 2 ^ 1024"
  then have "binade x \<le> 1023" by (rule binade_finite)
  then have "ulp x \<le> 2 powi 971" unfolding ulp_def by (intro pow2_mono) simp
  then show ?thesis by simp
qed

lemma rnd_finite:
  assumes "\<bar>x\<bar> < 2 ^ 1023"
  shows "rnd x = Finite (nearest x)"
proof -
  have "\<bar>x\<bar> < 2 ^ 1024" using assms by simp
  then have "ulp x \<le> 2 ^ 971" by (rule ulp_le)
  then have "\<bar>nearest x - x\<bar> \<le> 2 ^ 970" using nearest_err [of x] by simp
  then have "\<bar>nearest x\<bar> < 2 ^ 1023 + 2 ^ 970" using assms by linarith
  then have "\<bar>nearest x\<bar> < 2 ^ 1024" by simp
  then show ?thesis by (simp add: rnd_def Let_def abs_less_iff)
qed

lemma rnd_exact:
  assumes "x = real_of_int n * 2 powi k" "\<bar>n\<bar> < 2 ^ 53" "- 1074 \<le> k" "\<bar>x\<bar> < 2 ^ 1024"
  shows "rnd x = Finite x"
proof -
  have "nearest x = x" using assms by (rule nearest_exact)
  then show ?thesis using assms(4) by (simp add: rnd_def Let_def abs_less_iff)
qed

lemma rnd_idem:
  assumes "rnd x = Finite y"
  shows "rnd y = Finite y"
proof (cases x rule: rnd_cases)
  case fin
  then have y: "y = nearest x" using assms by simp
  have "nearest y = y" unfolding y using fin(2) by (rule nearest_idem)
  then show ?thesis using fin(2) y by (simp add: rnd_def Let_def abs_less_iff)
next
  case pinf
  then show ?thesis using assms by simp
next
  case ninf
  then show ?thesis using assms by simp
qed

lemma rnd_overflow:
  assumes "2 ^ 1024 \<le> x"
  shows "rnd x = PosInf"
proof -
  have "\<not> \<bar>nearest x\<bar> < 2 ^ 1024"
  proof
    assume fin: "\<bar>nearest x\<bar> < 2 ^ 1024"
    have b: "binade x = 1024"
      by (rule binade_eqI) (use assms in \<open>simp_all add: pow2_1024\<close>)
    then have u: "ulp x = 2 ^ 972" by (simp add: ulp_def)
    have "real_of_int (2 ^ 52) \<le> x / ulp x" using assms by (simp add: u)
    then have "2 ^ 52 \<le> round_even (x / ulp x)" by (rule round_even_ge)
    then have "real_of_int (2 ^ 52) \<le> real_of_int (round_even (x / ulp x))"
      by (simp only: of_int_le_iff)
    then have "2 ^ 52 * 2 ^ 972 \<le> nearest x" unfolding nearest_def u by simp
    then show False using fin by simp
  qed
  moreover have "0 \<le> nearest x" using assms by (intro nearest_nonneg) simp
  ultimately show ?thesis by (cases x rule: rnd_cases) simp_all
qed

lemma rnd_nonneg:
  assumes "0 \<le> x"
  shows "rnd x = PosInf \<or> (\<exists>y. rnd x = Finite y \<and> 0 \<le> y \<and> y = nearest x)"
proof (cases x rule: rnd_cases)
  case fin
  then show ?thesis using nearest_nonneg [OF assms] by simp
next
  case pinf
  then show ?thesis by simp
next
  case ninf
  then show ?thesis using nearest_nonneg [OF assms] by simp
qed

lemma rnd_nonpos:
  assumes "x \<le> 0"
  shows "rnd x = NegInf \<or> (\<exists>y. rnd x = Finite y \<and> y \<le> 0)"
proof (cases x rule: rnd_cases)
  case fin
  then show ?thesis using nearest_nonpos [OF assms] by simp
next
  case pinf
  then show ?thesis using nearest_nonpos [OF assms] by simp
next
  case ninf
  then show ?thesis by simp
qed

lemma lit_0_30_val: "lit_0_30 = Finite (5404319552844595 / 18014398509481984)"
proof -
  have "nearest (30 / 100) = 5404319552844595 / 18014398509481984"
    by (subst nearest_in_binade [of "- 2"]) (simp_all add: round_even_def power_int_minus)
  then show ?thesis by (simp add: lit_0_30_def rnd_def)
qed

lemma lit_0_18_val: "lit_0_18 = Finite (3242591731706757 / 18014398509481984)"
proof -
  have "nearest (18 / 100) = 3242591731706757 / 18014398509481984"
    by (subst nearest_in_binade [of "- 3"]) (simp_all add: round_even_def power_int_minus)
  then show ?thesis by (simp add: lit_0_18_def rnd_def)
qed



lemma d_of_int_exact:
  assumes "\<bar>m\<bar> < 2 ^ 53"
  shows "d_of_int m = Finite (real_of_int m)"
proof -
  have "\<bar>real_of_int m\<bar> < real_of_int (2 ^ 53)" using assms by (simp only: of_int_abs [symmetric] of_int_less_iff)
  then have "\<bar>real_of_int m\<bar> < 2 ^ 1024" by simp
  then show ?thesis unfolding d_of_int_def
    by (intro rnd_exact [of _ m 0]) (use assms in simp_all)
qed

lemma rnd_eval:
  assumes "- 1022 \<le> e" "e \<le> 1023" "2 powi e \<le> \<bar>x\<bar>" "\<bar>x\<bar> < 2 powi (e + 1)"
    and "real_of_int (round_even (x / 2 powi (e - 52))) * 2 powi (e - 52) = y"
    and "\<bar>y\<bar> < 2 ^ 1024"
  shows "rnd x = Finite y"
proof -
  have "nearest x = y" using nearest_in_binade [of e x] assms by simp
  then show ?thesis using assms(6) by (simp add: rnd_def Let_def abs_less_iff)
qed

lemma int64_sub_range: "- (2 ^ 63) \<le> int64_sub a b \<and> int64_sub a b < 2 ^ 63"
  unfolding int64_sub_def
  using signed_take_bit_int_less_exp [of 63 "a - b"]
    signed_take_bit_int_greater_eq_minus_exp [of 63 "a - b"] by simp

lemma int64_sub_exact:
  assumes "- (2 ^ 63) \<le> a - b" "a - b < 2 ^ 63"
  shows "int64_sub a b = a - b"
  unfolding int64_sub_def by (rule signed_take_bit_int_eq_self) (use assms in simp_all)

lemma minutes_count_bound:
  assumes "- (2 ^ 63) \<le> d" "d < 2 ^ 63"
  shows "\<bar>minutes_count d\<bar> < 2 ^ 53"
proof -
  have k: "0 < ticks_per_minute" by (rule ticks_per_minute_pos)
  have "\<bar>minutes_count d\<bar> = \<bar>d\<bar> div ticks_per_minute"
    using k by (simp add: minutes_count_def signed_divide_int_def abs_mult sgn_if
        pos_imp_zdiv_nonneg_iff)
  also have "\<dots> \<le> 2 ^ 63 div ticks_per_minute"
    using assms k by (intro zdiv_mono1) simp_all
  also have "\<dots> < 2 ^ 53" by (simp add: ticks_per_minute_def ticks_per_second_def)
  finally show ?thesis .
qed


lemma hours_of_minutes:
  assumes "\<bar>m\<bar> < 2 ^ 53"
  shows "dmax (Finite 0) (ddiv (d_of_int m) (Finite 60)) = ddiv (d_of_int (max 0 m)) (Finite 60)"
    and "\<exists>h. dmax (Finite 0) (ddiv (d_of_int m) (Finite 60)) = Finite h \<and> 0 \<le> h \<and>
           rnd h = Finite h"
    and "m \<le> 0 \<Longrightarrow> dmax (Finite 0) (ddiv (d_of_int m) (Finite 60)) = Finite 0"
proof -
  have dm: "d_of_int m = Finite (real_of_int m)" using assms by (rule d_of_int_exact)
  have d0: "d_of_int 0 = Finite 0" using d_of_int_exact [of 0] by simp
  have "\<bar>real_of_int m\<bar> < real_of_int (2 ^ 53)"
    using assms by (simp only: of_int_abs [symmetric] of_int_less_iff)
  then have "\<bar>real_of_int m / 60\<bar> < 2 ^ 1023" by simp
  then have q: "rnd (real_of_int m / 60) = Finite (nearest (real_of_int m / 60))"
    by (rule rnd_finite)
  have dv: "ddiv (d_of_int m) (Finite 60) = Finite (nearest (real_of_int m / 60))"
    by (simp add: dm q)
  have idem: "rnd (nearest (real_of_int m / 60)) = Finite (nearest (real_of_int m / 60))"
    using q by (rule rnd_idem)
  show le0: "dmax (Finite 0) (ddiv (d_of_int m) (Finite 60)) = Finite 0" if "m \<le> 0"
  proof -
    have "nearest (real_of_int m / 60) \<le> 0" using that by (intro nearest_nonpos) simp
    then show ?thesis by (simp add: dv dmax_def)
  qed
  show "dmax (Finite 0) (ddiv (d_of_int m) (Finite 60)) = ddiv (d_of_int (max 0 m)) (Finite 60)"
  proof (cases "m \<le> 0")
    case True
    then have "max 0 m = 0" by simp
    then show ?thesis using le0 [OF True] by (simp add: d0 rnd_0)
  next
    case False
    then have "0 \<le> nearest (real_of_int m / 60)" by (intro nearest_nonneg) simp
    then have "dmax (Finite 0) (ddiv (d_of_int m) (Finite 60)) = ddiv (d_of_int m) (Finite 60)"
      unfolding dv dmax_def by auto
    then show ?thesis using False by (simp add: max_def)
  qed
  show "\<exists>h. dmax (Finite 0) (ddiv (d_of_int m) (Finite 60)) = Finite h \<and> 0 \<le> h \<and>
           rnd h = Finite h"
  proof (cases "0 < nearest (real_of_int m / 60)")
    case True
    then show ?thesis using idem by (simp add: dv dmax_def)
  next
    case False
    then show ?thesis by (simp add: dv dmax_def rnd_0)
  qed
qed

lemma elapsed_hours_finite:
  "\<exists>h. elapsed_hours t now = Finite h \<and> 0 \<le> h \<and> rnd h = Finite h"
proof -
  have "- (2 ^ 63) \<le> int64_sub now t" "int64_sub now t < 2 ^ 63"
    using int64_sub_range [of now t] by simp_all
  then have "\<bar>minutes_count (int64_sub now t)\<bar> < 2 ^ 53" by (rule minutes_count_bound)
  then show ?thesis unfolding elapsed_hours_def by (rule hours_of_minutes(2))
qed


lemma elapsed_hours_below_minute:
  assumes "- (2 ^ 63) \<le> now - t" "now - t < ticks_per_minute"
  shows "elapsed_hours t now = Finite 0"
proof -
  have lt: "now - t < 2 ^ 63"
    using assms(2) by (simp add: ticks_per_minute_def ticks_per_second_def)
  have b: "\<bar>minutes_count (now - t)\<bar> < 2 ^ 53" using assms(1) lt by (rule minutes_count_bound)
  have "minutes_count (now - t) \<le> 0" using assms(2) by (rule minutes_count_small)
  then show ?thesis
    by (simp add: elapsed_hours_def int64_sub_exact [OF assms(1) lt] hours_of_minutes(3) [OF b])
qed


lemma dadd_rnd_zero: "dadd (rnd x) (Finite 0) = rnd x"
proof (cases x rule: rnd_cases)
  case fin
  then show ?thesis using rnd_idem [of x "nearest x"] by simp
next
  case pinf
  then show ?thesis by simp
next
  case ninf
  then show ?thesis by simp
qed

lemma dmul_add_zero: "dadd (dmul a b) (Finite 0) = dmul a b"
  by (cases a; cases b) (simp_all add: dadd_rnd_zero)

lemma dmul_sub_zero: "dsub (dmul a b) (Finite 0) = dmul a b"
  by (simp add: dsub_def dmul_add_zero)

lemma dle_zero_iff: "dle (Finite 0) a \<longleftrightarrow> a = PosInf \<or> (\<exists>v. a = Finite v \<and> 0 \<le> v)"
  by (cases a) simp_all

lemma rnd_dle_zero: "0 \<le> x \<Longrightarrow> dle (Finite 0) (rnd x)"
  using rnd_nonneg [of x] by (auto simp add: dle_zero_iff)

lemma dadd_dle_zero:
  assumes "dle (Finite 0) a" "dle (Finite 0) b"
  shows "dle (Finite 0) (dadd a b)"
  using assms by (cases a; cases b) (simp_all add: rnd_dle_zero)

lemma dmul_dle_zero:
  assumes "dle (Finite 0) a" "0 < c"
  shows "dle (Finite 0) (dmul a (Finite c))"
  using assms by (cases a) (simp_all add: rnd_dle_zero)

lemma discount_at_most_gross:
  assumes "rnd x = Finite s" "0 \<le> x"
  shows "dle (Finite 0) (dsub (Finite s) (dmul (Finite s) lit_0_30))"
proof -
  have s: "s = nearest x" "\<bar>nearest x\<bar> < 2 ^ 1024"
    using assms(1) by (cases x rule: rnd_cases; simp)+
  have s0: "0 \<le> s" unfolding s(1) using assms(2) by (rule nearest_nonneg)
  define c :: real where "c = 5404319552844595 / 18014398509481984"
  have lit: "lit_0_30 = Finite c" by (simp add: lit_0_30_val c_def)
  have sh: "0 \<le> nearest (s * c) \<and> nearest (s * c) \<le> s"
    using s(1) s0 by (rule nearest_shrink) (simp_all add: c_def)
  then have "\<bar>nearest (s * c)\<bar> < 2 ^ 1024" using s by simp
  then have d: "rnd (s * c) = Finite (nearest (s * c))"
    by (simp add: rnd_def Let_def abs_less_iff)
  have "dsub (Finite s) (dmul (Finite s) lit_0_30) = rnd (s - nearest (s * c))"
    by (simp add: lit d dsub_def)
  then show ?thesis using sh by (simp add: rnd_dle_zero)
qed

section \<open>The fee on machine numbers\<close>



text \<open>Six hours at rate 100 with dynamic pricing, operation by operation.\<close>

lemma minutes_count_360: "minutes_count 21600000000000 = 360"
  by (rule minutes_count_eq) (simp_all add: ticks_per_minute_def ticks_per_second_def)

lemma hours_360: "elapsed_hours 0 21600000000000 = Finite 6"
proof -
  have a: "int64_sub 21600000000000 0 = 21600000000000"
    using int64_sub_exact [of 21600000000000 0] by simp
  have b: "d_of_int 360 = Finite 360" using d_of_int_exact [of 360] by simp
  have c: "rnd 6 = Finite 6" using rnd_exact [of 6 6 0] by simp
  show ?thesis by (simp add: elapsed_hours_def a minutes_count_360 b c dmax_def)
qed



lemma gross_600: "dmul (Finite 6) (Finite 100) = Finite 600"
  using rnd_exact [of 600 600 0] by simp

lemma sub_600: "dsub (Finite 600) (Finite 180) = Finite 420"
  using rnd_exact [of 420 420 0] by (simp add: dsub_def)

lemma discount_600: "dmul (Finite 600) lit_0_30 = Finite 180"
  unfolding lit_0_30_val dmul.simps
  by (rule rnd_eval [of 7]) (simp_all add: round_even_def power_int_minus)

lemma gst_420: "dmul (Finite 420) lit_0_18 = Finite (2659938529915699 / 35184372088832)"
  unfolding lit_0_18_val dmul.simps
  by (rule rnd_eval [of 6]) (simp_all add: round_even_def power_int_minus)

lemma total_420: "dadd (Finite 420) (Finite (2659938529915699 / 35184372088832))
    = Finite (4359343701806285 / 8796093022208)"
  unfolding dadd.simps
  by (rule rnd_eval [of 8]) (simp_all add: round_even_def power_int_minus)










subsection \<open>Sign of the fee\<close>

lemma fee_zero_rate:
  assumes "hourlyRate r = 0"
  shows "calculateFee_double now r = Finite 0"
proof -
  obtain h where h: "elapsed_hours (parkingTime r) now = Finite h"
    using elapsed_hours_finite by blast
  show ?thesis
    by (simp add: calculateFee_double_def Let_def h assms rnd_0 lit_0_30_val lit_0_18_val dsub_def)
qed

lemma fee_nonneg:
  assumes rate: "0 \<le> hourlyRate r"
    and ovf: "\<not> dynamicPricing r \<or> \<not> dless (Finite 5) (elapsed_hours (parkingTime r) now) \<or>
              is_finite (dmul (elapsed_hours (parkingTime r) now) (Finite (hourlyRate r)))"
  shows "dle (Finite 0) (calculateFee_double now r)"
proof -
  obtain h where h: "elapsed_hours (parkingTime r) now = Finite h" "0 \<le> h"
    using elapsed_hours_finite by blast
  define g where "g = dmul (Finite h) (Finite (hourlyRate r))"
  have gr: "g = rnd (h * hourlyRate r)" by (simp add: g_def)
  have x0: "0 \<le> h * hourlyRate r" using h(2) rate by simp
  have g0: "dle (Finite 0) g" unfolding gr using x0 by (rule rnd_dle_zero)
  have c18: "lit_0_18 = Finite (3242591731706757 / 18014398509481984)" by (rule lit_0_18_val)
  have tax: "dle (Finite 0) (dadd a (dmul a lit_0_18))" if "dle (Finite 0) a" for a
  proof -
    have "dle (Finite 0) (dmul a lit_0_18)" unfolding c18 using that by (rule dmul_dle_zero) simp
    with that show ?thesis by (rule dadd_dle_zero)
  qed
  show ?thesis
  proof (cases "dynamicPricing r")
    case False
    have "dle (Finite 0) (dadd g (Finite 0))" using g0 by (rule dadd_dle_zero) simp
    then show ?thesis using False by (simp add: calculateFee_double_def Let_def h g_def)
  next
    case dyn: True
    show ?thesis
    proof (cases "dless (Finite 5) (Finite h)")
      case False
      then show ?thesis
        using dyn tax [OF g0]
        by (simp add: calculateFee_double_def Let_def h g_def [symmetric] del: dmul.simps dless.simps)
    next
      case True
      then have "is_finite g" using ovf dyn by (simp add: h g_def del: dmul.simps dless.simps)
      then obtain s where s: "g = Finite s" by (cases g) simp_all
      then have "rnd (h * hourlyRate r) = Finite s" using gr by simp
      then have "dle (Finite 0) (dsub (Finite s) (dmul (Finite s) lit_0_30))"
        using x0 by (rule discount_at_most_gross)
      then have "dle (Finite 0) (dadd (dsub g (dmul g lit_0_30)) (dmul (dsub g (dmul g lit_0_30)) lit_0_18))"
        unfolding s by (rule tax)
      then show ?thesis
        using dyn True
        by (simp add: calculateFee_double_def Let_def h g_def [symmetric] del: dmul.simps dless.simps)
    qed
  qed
qed

lemma hours_future: "elapsed_hours 18000000000000 0 = Finite 0"
  by (rule elapsed_hours_below_minute)
    (simp_all add: ticks_per_minute_def ticks_per_second_def)

lemma minutes_count_600: "minutes_count 36000000000000 = 600"
  by (rule minutes_count_eq) (simp_all add: ticks_per_minute_def ticks_per_second_def)

lemma hours_600: "elapsed_hours 0 36000000000000 = Finite 10"
proof -
  have a: "int64_sub 36000000000000 0 = 36000000000000"
    using int64_sub_exact [of 36000000000000 0] by simp
  have b: "d_of_int 600 = Finite 600" using d_of_int_exact [of 600] by simp
  have c: "rnd 10 = Finite 10" using rnd_exact [of 10 10 0] by simp
  show ?thesis by (simp add: elapsed_hours_def a minutes_count_600 b c dmax_def)
qed

lemma gross_overflow: "dmul (Finite 10) (Finite (2 ^ 1023)) = PosInf"
  unfolding dmul.simps by (rule rnd_overflow) simp

lemma fee_nan_on_overflow:
  assumes "dynamicPricing r" "dless (Finite 5) (elapsed_hours (parkingTime r) now)"
    "dmul (elapsed_hours (parkingTime r) now) (Finite (hourlyRate r)) = PosInf"
  shows "calculateFee_double now r = NaN"
  using assms by (simp add: calculateFee_double_def Let_def lit_0_30_val dsub_def)

text \<open>
  Claim C8, as amended. For every record with an hourly rate that is at least 0
  and every evaluation instant, also one before the record's admission time,
  \<open>calculateFee\<close> returns (the function is total) a value that is at least 0,
  provided that, where dynamic pricing applies with more than 5 hours elapsed,
  the gross hours times rate does not overflow the range of double; and with an
  hourly rate of 0 the fee is exactly 0 whatever the elapsed time.
\<close>

theorem C8_fee_nonnegative_without_overflow:
  "(0 \<le> hourlyRate r \<and>
      (\<not> dynamicPricing r \<or> \<not> dless (Finite 5) (elapsed_hours (parkingTime r) now) \<or>
       is_finite (dmul (elapsed_hours (parkingTime r) now) (Finite (hourlyRate r))))
      \<longrightarrow> dle (Finite 0) (calculateFee_double now r)) \<and>
   (hourlyRate r = 0 \<longrightarrow> calculateFee_double now r = Finite 0)"
  using fee_nonneg [of r now] fee_zero_rate [of r now] by blast

theorem C8_fee_nonnegative_without_overflow_witness:
  "0 \<le> hourlyRate (createCar 18000000000000 2 ''Future Owner'' True 50) \<and>
   \<not> dless (Finite 5) (elapsed_hours (parkingTime (createCar 18000000000000 2 ''Future Owner'' True 50)) 0) \<and>
   dle (Finite 0) (calculateFee_double 0 (createCar 18000000000000 2 ''Future Owner'' True 50)) \<and>
   hourlyRate (createCar 0 1200 ''FreePark'' False 0) = 0 \<and>
   calculateFee_double 18000000000000 (createCar 0 1200 ''FreePark'' False 0) = Finite 0"
proof -
  let ?f = "createCar 18000000000000 2 ''Future Owner'' True 50"
  let ?z = "createCar 0 1200 ''FreePark'' False 0"
  have h1: "0 \<le> hourlyRate ?f" by (simp add: createCar_def Car_ctor_def)
  have h2: "\<not> dless (Finite 5) (elapsed_hours (parkingTime ?f) 0)"
    by (simp add: createCar_def Car_ctor_def hours_future)
  have h3: "hourlyRate ?z = 0" by (simp add: createCar_def Car_ctor_def)
  show ?thesis
    using C8_fee_nonnegative_without_overflow [of ?f 0] C8_fee_nonnegative_without_overflow [of ?z 18000000000000] h1 h2 h3 by blast
qed

text \<open>
  Without the proviso claim C8 fails: with dynamic pricing, ten hours elapsed and
  the finite rate \<open>2^1023\<close> the gross overflows to infinity, the discount is
  infinite too, their difference is NaN and so is the fee, which is not at least 0.
\<close>

theorem C8_overflow_gives_nan:
  "0 \<le> hourlyRate (createCar 0 1 ''Rich'' True (2 ^ 1023)) \<and>
   calculateFee_double 36000000000000 (createCar 0 1 ''Rich'' True (2 ^ 1023)) = NaN \<and>
   \<not> dle (Finite 0) (calculateFee_double 36000000000000 (createCar 0 1 ''Rich'' True (2 ^ 1023)))"
proof -
  let ?r = "createCar 0 1 ''Rich'' True (2 ^ 1023)"
  have p: "parkingTime ?r = 0" and d: "dynamicPricing ?r" and h: "hourlyRate ?r = 2 ^ 1023"
    by (simp_all add: createCar_def Car_ctor_def)
  have e: "elapsed_hours (parkingTime ?r) 36000000000000 = Finite 10"
    by (simp only: p hours_600)
  have g: "dmul (elapsed_hours (parkingTime ?r) 36000000000000) (Finite (hourlyRate ?r)) = PosInf"
    by (simp only: e h gross_overflow)
  have l: "dless (Finite 5) (elapsed_hours (parkingTime ?r) 36000000000000)"
    unfolding e by simp
  have "calculateFee_double 36000000000000 ?r = NaN"
    using d l g by (rule fee_nan_on_overflow)
  then show ?thesis using h by simp
qed

section \<open>Removal with billing\<close>

text \<open>
  Claim C6. For every stored record \<open>r\<close> (the first one carrying its id and owner
  name, which is the one a removal bills) and every instant \<open>now\<close>, the removal
  produces a bill for \<open>r\<close> whose total equals \<open>calculateFee\<close> of \<open>r\<close> at the same
  instant, and whose breakdown is the one of the fee: the hours are the elapsed
  hours of \<open>r\<close>, the gross is the hours times the rate before any discount, the
  discount is 30 percent of the gross under dynamic pricing above five hours and
  0 otherwise, the tax is 18 percent of the gross less the discount under dynamic
  pricing and 0 otherwise, and the total is the gross minus the discount plus the
  tax.
\<close>

theorem C6_bill_breakdown_and_total:
  assumes "cars s = pre @ r # post"
    and "\<forall>x \<in> set pre. \<not> (id' x = id' r \<and> ownerName x = ownerName r)"
  shows "\<exists>b. fst (removeCarByIdAndOwner now (id' r) (ownerName r) s) = Some b \<and>
           b_id b = id' r \<and> b_ownerName b = ownerName r \<and>
           b_licensePlate b = licensePlate r \<and>
           b_hours b = elapsed_hours (parkingTime r) now \<and>
           b_rate b = Finite (hourlyRate r) \<and>
           b_gross b = dmul (b_hours b) (b_rate b) \<and>
           b_discount b =
             (if dynamicPricing r \<and> dless (Finite 5) (b_hours b)
              then dmul (b_gross b) lit_0_30 else Finite 0) \<and>
           b_gst b =
             (if dynamicPricing r then dmul (dsub (b_gross b) (b_discount b)) lit_0_18
              else Finite 0) \<and>
           b_discount_shown b = dless (Finite 0) (b_discount b) \<and>
           b_total b = dadd (dsub (b_gross b) (b_discount b)) (b_gst b) \<and>
           b_total b = calculateFee_double now r"
proof -
  have "removeCarByIdAndOwner now (id' r) (ownerName r) s =
          (Some (make_bill now r), s\<lparr> cars := pre @ post \<rparr>)"
    using assms by (intro remove_first_match) simp_all
  then have f: "fst (removeCarByIdAndOwner now (id' r) (ownerName r) s) = Some (make_bill now r)"
    by simp
  let ?b = "make_bill now r"
  have 1: "b_id ?b = id' r" "b_ownerName ?b = ownerName r" "b_licensePlate ?b = licensePlate r"
    "b_hours ?b = elapsed_hours (parkingTime r) now" "b_rate ?b = Finite (hourlyRate r)"
    by (simp_all add: make_bill_def Let_def)
  have 2: "b_gross ?b = dmul (b_hours ?b) (b_rate ?b)"
    by (simp add: make_bill_def Let_def)
  have 3: "b_discount ?b =
             (if dynamicPricing r \<and> dless (Finite 5) (b_hours ?b)
              then dmul (b_gross ?b) lit_0_30 else Finite 0)"
    by (simp add: make_bill_def Let_def)
  have 4: "b_gst ?b =
             (if dynamicPricing r then dmul (dsub (b_gross ?b) (b_discount ?b)) lit_0_18
              else Finite 0)"
    by (simp add: make_bill_def Let_def dmul_sub_zero)
  have 5: "b_total ?b = dadd (dsub (b_gross ?b) (b_discount ?b)) (b_gst ?b)"
    by (simp add: make_bill_def Let_def dmul_sub_zero)
  have 6: "b_total ?b = calculateFee_double now r"
    by (simp add: make_bill_def calculateFee_double_def Let_def)
  have 7: "b_discount_shown ?b = dless (Finite 0) (b_discount ?b)"
    by (simp add: make_bill_def Let_def)
  show ?thesis using f 1 2 3 4 5 6 7 by blast
qed

theorem C6_bill_breakdown_and_total_witness:
  "\<exists>b. fst (removeCarByIdAndOwner 21600000000000 301 ''Owner''
            \<lparr> cars = [createCar 0 300 ''Owner'' True 100, createCar 0 301 ''Owner'' True 100],
              nextCarID = 1001, silentMode = True \<rparr>) = Some b \<and>
       b_hours b = Finite 6 \<and> b_gross b = Finite 600 \<and> b_discount b = Finite 180 \<and>
       b_gst b = Finite (2659938529915699 / 35184372088832) \<and>
       b_total b = Finite (4359343701806285 / 8796093022208) \<and>
       b_total b = calculateFee_double 21600000000000 (createCar 0 301 ''Owner'' True 100)"
proof -
  let ?r = "createCar 0 301 ''Owner'' True 100"
  let ?s = "\<lparr> cars = [createCar 0 300 ''Owner'' True 100, ?r],
              nextCarID = 1001, silentMode = True \<rparr>"
  have h1: "cars ?s = [createCar 0 300 ''Owner'' True 100] @ ?r # []" by simp
  have h2: "\<forall>x \<in> set [createCar 0 300 ''Owner'' True 100].
      \<not> (id' x = id' ?r \<and> ownerName x = ownerName ?r)"
    by (simp add: createCar_def Car_ctor_def)
  have r: "id' ?r = 301" "ownerName ?r = ''Owner''" "parkingTime ?r = 0"
    "hourlyRate ?r = 100" "dynamicPricing ?r"
    by (simp_all add: createCar_def Car_ctor_def)
  obtain b where b: "fst (removeCarByIdAndOwner 21600000000000 (id' ?r) (ownerName ?r) ?s) = Some b"
    "b_hours b = elapsed_hours (parkingTime ?r) 21600000000000"
    "b_rate b = Finite (hourlyRate ?r)"
    "b_gross b = dmul (b_hours b) (b_rate b)"
    "b_discount b = (if dynamicPricing ?r \<and> dless (Finite 5) (b_hours b)
                     then dmul (b_gross b) lit_0_30 else Finite 0)"
    "b_gst b = (if dynamicPricing ?r then dmul (dsub (b_gross b) (b_discount b)) lit_0_18
                else Finite 0)"
    "b_total b = dadd (dsub (b_gross b) (b_discount b)) (b_gst b)"
    "b_total b = calculateFee_double 21600000000000 ?r"
    using C6_bill_breakdown_and_total [OF h1 h2, of 21600000000000] by blast
  have 1: "b_hours b = Finite 6" using b(2) by (simp only: r hours_360)
  have 2: "b_gross b = Finite 600" using b(4) by (simp only: 1 b(3) r gross_600)
  have 3: "b_discount b = Finite 180"
    using b(5) r(5) by (simp add: 1 2 discount_600 del: dmul.simps)
  have 4: "b_gst b = Finite (2659938529915699 / 35184372088832)"
    using b(6) r(5) by (simp add: 2 3 sub_600 gst_420 del: dmul.simps dadd.simps)
  have 5: "b_total b = Finite (4359343701806285 / 8796093022208)"
    using b(7) by (simp add: 2 3 4 sub_600 total_420 del: dmul.simps dadd.simps)
  have 0: "fst (removeCarByIdAndOwner 21600000000000 301 ''Owner'' ?s) = Some b"
    using b(1) by (simp only: r)
  show ?thesis using 0 1 2 3 4 5 b(8) by blast
qed

end
